theory Spec2Isabelle
  imports Complex_Main "HOL-Library.Sublist" "HOL-Library.Multiset"
begin

section \<open>Timeline events (ui/dashboard/src/types/events.ts)\<close>

text \<open>
  The interfaces of \<open>types/events.ts\<close>. An optional or nullable property is an
  \<open>option\<close>; \<open>None\<close> stands for both \<open>undefined\<close> and \<open>null\<close>, which the code never
  tells apart (it tests with \<open>??\<close>, \<open>?.\<close> and truthiness only). A
  \<open>Record<string, T>\<close> is an association list. JavaScript numbers that the code only
  carries along are rationals.

  A string is the list of the bytes of its UTF-8 form, the form in which the backend's
  JSON carries it (a code point above U+007F is two to four bytes, a lone surrogate the
  three bytes of its code unit). The code compares strings for equality, concatenates
  them, tests them for emptiness and trims them; each of these reads the same on the
  bytes as on the UTF-16 code units JavaScript keeps.
\<close>

record violation_detail =
  category :: string
  severity :: string
  violation_type :: "string option"
  clause_reference :: "string option"
  description :: "string option"

record event_source =
  model_id :: string
  provider :: string
  mode :: "string option"
  metadata :: "(string \<times> string) list"

record run_metadata =
  run_id :: string
  scenario_id :: "string option"
  started_at :: string
  tags :: "(string \<times> string) list"

datatype timeline_event_type =
  user_prompt | llm_response | judge_verdict | metric_snapshot | audit_record

text \<open>The string literal each member of the union type \<open>TimelineEventType\<close> stands for.\<close>

fun type_literal :: "timeline_event_type \<Rightarrow> string" where
  "type_literal user_prompt = ''user_prompt''"
| "type_literal llm_response = ''llm_response''"
| "type_literal judge_verdict = ''judge_verdict''"
| "type_literal metric_snapshot = ''metric_snapshot''"
| "type_literal audit_record = ''audit_record''"

text \<open>
  The payload of an event is a plain object; \<open>UserPromptPayload\<close>,
  \<open>LLMResponsePayload\<close> and \<open>JudgeVerdictPayload\<close> name the properties each kind of
  event carries, and the code reads a payload through unchecked casts
  (\<open>event.payload as JudgeVerdictPayload\<close>). The record below is that object: the union
  of the three interfaces' properties, each possibly absent, so that a cast is the
  identity and reading a property the object lacks gives \<open>None\<close>.
\<close>

record payload =
  source :: "event_source option"
  prompt_text :: "string option"
  prompt_redacted :: "string option"
  question_category :: "string option"
  prompt_preview :: "string option"
  completion_preview :: "string option"
  latency_ms :: "rat option"
  token_usage :: "(string \<times> rat) list option"
  context_tokens :: "rat option"
  pii_redacted_text :: "string option"
  pii_raw_text :: "string option"
  pii_fields :: "string list option"
  verdict :: "string option"
  score :: "rat option"
  rationale_redacted :: "string option"
  rationale_raw :: "string option"
  violation :: "violation_detail option"

record timeline_event =
  run :: run_metadata
  exchange_id :: string
  turn_index :: int
  event_type :: timeline_event_type
  payload :: payload
  created_at :: string

text \<open>The empty object \<open>{}\<close> read as a payload.\<close>

definition empty_payload :: payload where
  "empty_payload = \<lparr>source = None, prompt_text = None, prompt_redacted = None,
     question_category = None, prompt_preview = None, completion_preview = None,
     latency_ms = None, token_usage = None, context_tokens = None,
     pii_redacted_text = None, pii_raw_text = None, pii_fields = None,
     verdict = None, score = None, rationale_redacted = None, rationale_raw = None,
     violation = None\<rparr>"

section \<open>Event source adapter (ui/dashboard/src/lib/api.ts)\<close>

text \<open>
  \<open>toTimelineEvent\<close> takes the parsed JSON of one event (\<open>raw: any\<close>). The records
  below are that JSON: every property may be missing or \<open>null\<close> (\<open>None\<close>), and a
  property that is present holds a value of the JSON type the backend sends for it, so
  that \<open>String(v)\<close> of a present string is the string itself. \<open>raw_has_model_id\<close> is
  the test \<open>'model_id' in raw\<close>, which is also true of a key whose value is \<open>null\<close>.
\<close>

record source_json =
  raw_has_model_id :: bool
  raw_model_id :: "string option"
  raw_provider :: "string option"
  raw_mode :: "string option"
  raw_metadata :: "(string \<times> string) list option"

record violation_json =
  raw_category :: "string option"
  raw_severity :: "string option"
  raw_violation_type :: "string option"
  raw_clause_reference :: "string option"
  raw_description :: "string option"

record payload_json =
  raw_source :: "source_json option"
  raw_verdict :: "string option"
  raw_score :: "rat option"
  raw_rationale_redacted :: "string option"
  raw_rationale_raw :: "string option"
  raw_violation :: "violation_json option"
  raw_latency_ms :: "rat option"
  raw_question_category :: "string option"
  raw_prompt_preview :: "string option"
  raw_completion_preview :: "string option"
  raw_token_usage :: "(string \<times> rat) list option"
  raw_context_tokens :: "rat option"
  raw_pii_redacted_text :: "string option"
  raw_pii_raw_text :: "string option"
  raw_final_text :: "string option"
  raw_pii_fields :: "string list option"

record run_json =
  raw_run_id :: "string option"
  raw_scenario_id :: "string option"
  raw_started_at :: "string option"
  raw_tags :: "(string \<times> string) list option"

record event_json =
  raw_created_at :: "string option"
  raw_run :: "run_json option"
  raw_exchange_id :: "string option"
  raw_turn_index :: "int option"
  raw_event_type :: "string option"
  raw_payload :: "payload_json option"

text \<open>\<open>a ?? b\<close>, and \<open>a ? String(a) : null\<close> for a string (the empty string is falsy).\<close>

definition nullish :: "'a option \<Rightarrow> 'a \<Rightarrow> 'a" where
  "nullish a b = (case a of Some v \<Rightarrow> v | None \<Rightarrow> b)"

definition truthy_string :: "string option \<Rightarrow> string option" where
  "truthy_string a = (case a of Some v \<Rightarrow> if v = [] then None else Some v | None \<Rightarrow> None)"

definition default_source :: event_source where
  "default_source = \<lparr>model_id = ''unknown-model'', provider = ''pipeline'', mode = None,
     metadata = []\<rparr>"

definition ensureSource :: "source_json option \<Rightarrow> event_source" where
  "ensureSource raw =
     (case raw of
        Some r \<Rightarrow>
          if raw_has_model_id r
          then \<lparr>model_id = nullish (raw_model_id r) ''unknown-model'',
                provider = nullish (raw_provider r) ''pipeline'',
                mode = truthy_string (raw_mode r),
                metadata = nullish (raw_metadata r) []\<rparr>
          else default_source
      | None \<Rightarrow> default_source)"

definition ensureViolation :: "violation_json option \<Rightarrow> violation_detail option" where
  "ensureViolation raw =
     (case raw of
        None \<Rightarrow> None
      | Some r \<Rightarrow>
          Some \<lparr>category = nullish (raw_category r) ''policy_violation'',
                 severity = nullish (raw_severity r) ''warn'',
                 violation_type = truthy_string (raw_violation_type r),
                 clause_reference = truthy_string (raw_clause_reference r),
                 description = truthy_string (raw_description r)\<rparr>)"

definition empty_payload_json :: payload_json where
  "empty_payload_json = \<lparr>raw_source = None, raw_verdict = None, raw_score = None,
     raw_rationale_redacted = None, raw_rationale_raw = None, raw_violation = None,
     raw_latency_ms = None, raw_question_category = None, raw_prompt_preview = None,
     raw_completion_preview = None, raw_token_usage = None, raw_context_tokens = None,
     raw_pii_redacted_text = None, raw_pii_raw_text = None, raw_final_text = None,
     raw_pii_fields = None\<rparr>"

text \<open>
  \<open>now\<close> is \<open>new Date().toISOString()\<close>, read when \<open>created_at\<close> is missing. The
  object \<open>base\<close> is built with the raw type string cast to \<open>TimelineEventType\<close>; the
  only use of that string is the comparison with \<open>'judge_verdict'\<close>, after which the
  type is \<open>'judge_verdict'\<close> in one branch and is overwritten with \<open>'llm_response'\<close>
  in the other.
\<close>

definition toTimelineEvent :: "string \<Rightarrow> event_json \<Rightarrow> timeline_event" where
  "toTimelineEvent now raw =
     (let createdAt = nullish (raw_created_at raw) now;
          base_run = \<lparr>run_id = nullish (Option.bind (raw_run raw) raw_run_id) ''unknown-run'',
                      scenario_id = Option.bind (raw_run raw) raw_scenario_id,
                      started_at = nullish (Option.bind (raw_run raw) raw_started_at) createdAt,
                      tags = nullish (Option.bind (raw_run raw) raw_tags) []\<rparr>;
          base_exchange_id = nullish (raw_exchange_id raw) ''exchange-unknown'';
          base_turn_index = nullish (raw_turn_index raw) 0;
          base_event_type = nullish (raw_event_type raw) ''audit_record'';
          payload = nullish (raw_payload raw) empty_payload_json
      in if base_event_type = ''judge_verdict''
         then \<lparr>run = base_run, exchange_id = base_exchange_id, turn_index = base_turn_index,
               event_type = judge_verdict,
               payload = empty_payload\<lparr>
                 source := Some (ensureSource (raw_source payload)),
                 verdict := Some (nullish (raw_verdict payload) ''allow''),
                 score := raw_score payload,
                 rationale_redacted :=
                   (case raw_rationale_redacted payload of Some t \<Rightarrow> Some t
                    | None \<Rightarrow> raw_rationale_raw payload),
                 rationale_raw := raw_rationale_raw payload,
                 violation := ensureViolation (raw_violation payload),
                 latency_ms := raw_latency_ms payload\<rparr>,
               created_at = createdAt\<rparr>
         else \<lparr>run = base_run, exchange_id = base_exchange_id, turn_index = base_turn_index,
               event_type = llm_response,
               payload = empty_payload\<lparr>
                 source := Some (ensureSource (raw_source payload)),
                 question_category := raw_question_category payload,
                 prompt_preview := raw_prompt_preview payload,
                 completion_preview := raw_completion_preview payload,
                 latency_ms := raw_latency_ms payload,
                 token_usage := Some (nullish (raw_token_usage payload) []),
                 context_tokens := raw_context_tokens payload,
                 pii_redacted_text :=
                   Some (case raw_pii_redacted_text payload of Some t \<Rightarrow> t
                         | None \<Rightarrow> (case raw_pii_raw_text payload of Some t \<Rightarrow> t
                             | None \<Rightarrow> nullish (raw_final_text payload) [])),
                 pii_raw_text := raw_pii_raw_text payload,
                 pii_fields := raw_pii_fields payload\<rparr>,
               created_at = createdAt\<rparr>)"

text \<open>\<open>fetchTimeline\<close>, and likewise \<open>submitPrompt\<close>: \<open>events.map(toTimelineEvent)\<close>.\<close>

definition normalize_events :: "string \<Rightarrow> event_json list \<Rightarrow> timeline_event list" where
  "normalize_events now events = map (toTimelineEvent now) events"

text \<open>
  A payload with the shape the \<open>else\<close> branch builds: the properties of
  \<open>LLMResponsePayload\<close> that the branch always sets are present, and none of the
  properties that only a verdict or a prompt payload has.
\<close>

definition response_shaped :: "payload \<Rightarrow> bool" where
  "response_shaped p =
     (source p \<noteq> None \<and> token_usage p \<noteq> None \<and> pii_redacted_text p \<noteq> None
      \<and> verdict p = None \<and> score p = None \<and> rationale_redacted p = None
      \<and> rationale_raw p = None \<and> violation p = None
      \<and> prompt_text p = None \<and> prompt_redacted p = None)"

definition verdict_shaped :: "payload \<Rightarrow> bool" where
  "verdict_shaped p =
     (source p \<noteq> None \<and> verdict p \<noteq> None \<and> token_usage p = None
      \<and> pii_redacted_text p = None \<and> pii_raw_text p = None \<and> question_category p = None)"

section \<open>Exchange grouper (features/timeline/Timeline.tsx)\<close>

text \<open>
  \<open>TurnGroup\<close> and the \<open>groups\<close> memo of the \<open>Timeline\<close> component. The code keeps
  the groups in an array \<open>collection\<close> and, for lookup, in a \<open>Map\<close> from
  \<open>exchange_id\<close> to the same objects; an entry found through the map is mutated in
  place, which changes the element of \<open>collection\<close>. The model keeps the array only:
  \<open>map.get(id)\<close> is the element of the array with that \<open>exchangeId\<close> (there is at
  most one, since an entry is pushed only when the map has none for its id), and the
  mutation is an update of that element.
\<close>

text \<open>
  The field \<open>run\<close> of \<open>TurnGroup\<close> is written \<open>group_run\<close>, since \<open>run\<close> already
  names the field of an event.
\<close>

record turn_group =
  exchangeId :: string
  turnIndex :: int
  createdAt :: string
  group_run :: run_metadata
  userPrompt :: "payload option"
  response :: "payload option"
  judges :: "payload list"

definition new_entry :: "timeline_event \<Rightarrow> turn_group" where
  "new_entry event = \<lparr>exchangeId = exchange_id event, turnIndex = turn_index event,
     createdAt = created_at event, group_run = run event, userPrompt = None,
     response = None, judges = []\<rparr>"

text \<open>The body of the \<open>forEach\<close> callback after \<open>entry\<close> has been found or created.\<close>

definition record_event :: "timeline_event \<Rightarrow> turn_group \<Rightarrow> turn_group" where
  "record_event event entry =
     (let entry = entry\<lparr>createdAt := created_at event\<rparr> in
      if event_type event = user_prompt then entry\<lparr>userPrompt := Some (payload event)\<rparr>
      else if event_type event = llm_response then entry\<lparr>response := Some (payload event)\<rparr>
      else if event_type event = judge_verdict then entry\<lparr>judges := judges entry @ [payload event]\<rparr>
      else entry)"

fun update_entry :: "string \<Rightarrow> (turn_group \<Rightarrow> turn_group) \<Rightarrow> turn_group list \<Rightarrow> turn_group list" where
  "update_entry i f [] = []"
| "update_entry i f (g # gs) = (if exchangeId g = i then f g # gs else g # update_entry i f gs)"

definition group_step :: "turn_group list \<Rightarrow> timeline_event \<Rightarrow> turn_group list" where
  "group_step collection event =
     (if \<exists>g \<in> set collection. exchangeId g = exchange_id event
      then update_entry (exchange_id event) (record_event event) collection
      else collection @ [record_event event (new_entry event)])"

definition groups :: "timeline_event list \<Rightarrow> turn_group list" where
  "groups events = foldl group_step [] events"

text \<open>The distinct elements of a list in the order of their first occurrence.\<close>

definition first_seen :: "'a list \<Rightarrow> 'a list" where
  "first_seen xs = rev (remdups (rev xs))"

text \<open>The events of one exchange, in input order.\<close>

definition events_of :: "string \<Rightarrow> timeline_event list \<Rightarrow> timeline_event list" where
  "events_of i events = filter (\<lambda>e. exchange_id e = i) events"

definition of_type :: "timeline_event_type \<Rightarrow> timeline_event list \<Rightarrow> timeline_event list" where
  "of_type t events = filter (\<lambda>e. event_type e = t) events"

definition last_payload :: "timeline_event list \<Rightarrow> payload option" where
  "last_payload es = (case es of [] \<Rightarrow> None | _ \<Rightarrow> Some (payload (last es)))"

text \<open>
  What the fold has made of the events \<open>es\<close> of one exchange (\<open>es\<close> non-empty): the
  entry created from the first of them, after every one of them has been recorded.
\<close>

definition build_entry :: "timeline_event list \<Rightarrow> turn_group" where
  "build_entry es = foldl (\<lambda>g e. record_event e g) (new_entry (hd es)) es"

section \<open>Reconciliation buffer (ui/dashboard/src/App.tsx)\<close>

text \<open>
  The memo \<open>combinedEvents\<close>: a \<open>Set\<close> of keys already seen and the array \<open>merged\<close>,
  filled by \<open>push\<close> over the fetched (historical) events and then over the stream
  (live) events. The key is the template string
  \<open>`${event.event_type}|${event.exchange_id}|${event.created_at}`\<close>.
\<close>

definition event_key :: "timeline_event \<Rightarrow> string" where
  "event_key event =
     type_literal (event_type event) @ ''|'' @ exchange_id event @ ''|'' @ created_at event"

definition push :: "string set \<times> timeline_event list \<Rightarrow> timeline_event
    \<Rightarrow> string set \<times> timeline_event list" where
  "push st event =
     (case st of (seen, merged) \<Rightarrow>
        if event_key event \<in> seen then (seen, merged)
        else (insert (event_key event) seen, merged @ [event]))"


text \<open>
  The memo \<open>orderedEvents\<close> sorts a copy of \<open>combinedEvents\<close> with the comparator
  \<open>new Date(a.created_at).getTime() - new Date(b.created_at).getTime()\<close>. Parsing a date
  string is the JavaScript engine's work, not this repository's, so the reading of a
  timestamp is a parameter \<open>getTime\<close>: \<open>Some t\<close> is the time value in milliseconds
  (an integer), \<open>None\<close> is the \<open>NaN\<close> of an invalid date. A difference with a
  \<open>NaN\<close> operand is \<open>NaN\<close>.
\<close>

type_synonym clock = "string \<Rightarrow> int option"










text \<open>
  Comparing two timestamps as JavaScript compares the numbers read from them: a
  comparison with \<open>NaN\<close> is false.
\<close>

definition created_le :: "clock \<Rightarrow> string \<Rightarrow> string \<Rightarrow> bool" where
  "created_le getTime a b =
     (case (getTime a, getTime b) of (Some x, Some y) \<Rightarrow> x \<le> y | _ \<Rightarrow> False)"

definition all_parse :: "clock \<Rightarrow> timeline_event list \<Rightarrow> bool" where
  "all_parse getTime events = list_all (\<lambda>e. getTime (created_at e) \<noteq> None) events"


text \<open>
  The events of \<open>xs\<close> whose key no earlier event of \<open>xs\<close> has: insertion order with
  every later copy of a key left out.
\<close>

fun first_by_key :: "string set \<Rightarrow> timeline_event list \<Rightarrow> timeline_event list" where
  "first_by_key seen [] = []"
| "first_by_key seen (e # es) =
     (if event_key e \<in> seen then first_by_key seen es
      else e # first_by_key (insert (event_key e) seen) es)"

text \<open>
  The key of the specification, the triple of kind, exchange id and timestamp; and event
  lists in which no exchange id contains the separator \<open>|\<close> of the key string.
\<close>

definition event_triple :: "timeline_event \<Rightarrow> timeline_event_type \<times> string \<times> string" where
  "event_triple e = (event_type e, exchange_id e, created_at e)"


section \<open>Example data\<close>

text \<open>
  Three timestamps with the time values JavaScript reads from them, and a clock that
  knows these three.
\<close>

definition at_ms1 :: string where "at_ms1 = ''1970-01-01T00:00:00.001Z''"
definition at_ms2 :: string where "at_ms2 = ''1970-01-01T00:00:00.002Z''"
definition at_ms3 :: string where "at_ms3 = ''1970-01-01T00:00:00.003Z''"

definition example_clock :: clock where
  "example_clock = map_of [(at_ms1, 1), (at_ms2, 2), (at_ms3, 3)]"

definition example_run :: run_metadata where
  "example_run = \<lparr>run_id = ''demo-session'', scenario_id = Some ''A'',
     started_at = ''1970-01-01T00:00:00.000Z'', tags = []\<rparr>"

definition example_source :: event_source where
  "example_source = \<lparr>model_id = ''gemma3-4B-128k'', provider = ''llama.cpp'',
     mode = Some ''rag'', metadata = []\<rparr>"

definition response_event :: "string \<Rightarrow> string \<Rightarrow> string option \<Rightarrow> string \<Rightarrow> timeline_event" where
  "response_event ex stamp cat txt =
     \<lparr>run = example_run, exchange_id = ex, turn_index = 0, event_type = llm_response,
      payload = empty_payload\<lparr>source := Some example_source, question_category := cat,
        pii_redacted_text := Some txt\<rparr>,
      created_at = stamp\<rparr>"

definition verdict_event :: "string \<Rightarrow> string \<Rightarrow> string \<Rightarrow> violation_detail option \<Rightarrow> timeline_event" where
  "verdict_event ex stamp v viol =
     \<lparr>run = example_run, exchange_id = ex, turn_index = 0, event_type = judge_verdict,
      payload = empty_payload\<lparr>source := Some example_source, verdict := Some v,
        violation := viol\<rparr>,
      created_at = stamp\<rparr>"



definition example_timeline :: "timeline_event list" where
  "example_timeline =
     [response_event ''ex-1'' at_ms1 None ''first answer'',
      verdict_event ''ex-1'' at_ms2 ''warn'' None,
      response_event ''ex-2'' at_ms2 None ''other exchange'',
      verdict_event ''ex-1'' at_ms3 ''block'' None,
      response_event ''ex-1'' at_ms3 None ''second answer'']"

definition example_unsorted :: "timeline_event list" where
  "example_unsorted =
     [verdict_event ''ex-1'' at_ms2 ''warn'' None,
      response_event ''ex-1'' at_ms1 None ''answer'']"

definition example_raw :: "string option \<Rightarrow> event_json" where
  "example_raw t = \<lparr>raw_created_at = Some at_ms1, raw_run = None,
     raw_exchange_id = Some ''ex-1'', raw_turn_index = Some 0, raw_event_type = t,
     raw_payload = None\<rparr>"

section \<open>Filter and metrics engine (ui/dashboard/src/App.tsx)\<close>

subsection \<open>Facets and the filter\<close>

text \<open>
  \<open>String.prototype.trim\<close> removes from both ends of a string every code point that
  ECMAScript calls \<open>WhiteSpace\<close> or \<open>LineTerminator\<close>: U+0009 to U+000D, U+0020,
  U+00A0, U+1680, U+2000 to U+200A, U+2028, U+2029, U+202F, U+205F, U+3000 and U+FEFF.
  \<open>js_whitespace\<close> lists them as the strings they are, that is by their UTF-8 bytes.
  \<open>strip_leading ws s\<close> removes members of \<open>ws\<close> from the front of \<open>s\<close> for as long
  as one is there; the end of a string is trimmed as the front of its reversal.
\<close>

definition js_whitespace :: "string list" where
  "js_whitespace =
     [[CHR 0x09], [CHR 0x0A], [CHR 0x0B], [CHR 0x0C], [CHR 0x0D], [CHR 0x20],
      [CHR 0xC2, CHR 0xA0],
      [CHR 0xE1, CHR 0x9A, CHR 0x80],
      [CHR 0xE2, CHR 0x80, CHR 0x80], [CHR 0xE2, CHR 0x80, CHR 0x81],
      [CHR 0xE2, CHR 0x80, CHR 0x82], [CHR 0xE2, CHR 0x80, CHR 0x83],
      [CHR 0xE2, CHR 0x80, CHR 0x84], [CHR 0xE2, CHR 0x80, CHR 0x85],
      [CHR 0xE2, CHR 0x80, CHR 0x86], [CHR 0xE2, CHR 0x80, CHR 0x87],
      [CHR 0xE2, CHR 0x80, CHR 0x88], [CHR 0xE2, CHR 0x80, CHR 0x89],
      [CHR 0xE2, CHR 0x80, CHR 0x8A],
      [CHR 0xE2, CHR 0x80, CHR 0xA8], [CHR 0xE2, CHR 0x80, CHR 0xA9],
      [CHR 0xE2, CHR 0x80, CHR 0xAF],
      [CHR 0xE2, CHR 0x81, CHR 0x9F],
      [CHR 0xE3, CHR 0x80, CHR 0x80],
      [CHR 0xEF, CHR 0xBB, CHR 0xBF]]"

function strip_leading :: "string list \<Rightarrow> string \<Rightarrow> string" where
  "strip_leading ws s =
     (case find (\<lambda>w. w \<noteq> [] \<and> prefix w s) ws of
        Some w \<Rightarrow> strip_leading ws (drop (length w) s)
      | None \<Rightarrow> s)"
  by pat_completeness auto
termination
proof (relation "measure (\<lambda>(ws, s). length s)")
  show "wf (measure (\<lambda>(ws, s). length s))" by simp
next
  fix ws :: "string list" and s w :: string
  assume "find (\<lambda>w. w \<noteq> [] \<and> prefix w s) ws = Some w"
  then have "w \<noteq> []" and "prefix w s" by (auto simp: find_Some_iff)
  then have "s \<noteq> []" by auto
  with \<open>w \<noteq> []\<close> show "((ws, drop (length w) s), (ws, s)) \<in> measure (\<lambda>(ws, s). length s)"
    by simp
qed

declare strip_leading.simps [simp del]

definition trimStart :: "string \<Rightarrow> string" where
  "trimStart s = strip_leading js_whitespace s"

definition trimEnd :: "string \<Rightarrow> string" where
  "trimEnd s = rev (strip_leading (map rev js_whitespace) (rev s))"

definition trim :: "string \<Rightarrow> string" where
  "trim s = trimEnd (trimStart s)"

text \<open>
  The memo \<open>exchangeQuestionCategory\<close> over \<open>orderedEvents\<close> (here \<open>ordered\<close>): for
  every response event, in order,
  \<open>map.set(event.exchange_id, category)\<close> with
  \<open>category = rawCategory && rawCategory.trim().length > 0 ? rawCategory : 'Uncategorized'\<close>.
\<close>

definition category_label :: "string option \<Rightarrow> string" where
  "category_label rawCategory =
     (case rawCategory of
        Some c \<Rightarrow> if c \<noteq> [] \<and> length (trim c) > 0 then c else ''Uncategorized''
      | None \<Rightarrow> ''Uncategorized'')"


text \<open>
  The memo \<open>exchangeViolationCategories\<close>: for every verdict event, in order, the set of
  its exchange gains
  \<open>category = payload.violation?.category?.trim() || 'policy_violation'\<close>.
\<close>

definition violation_label :: "violation_detail option \<Rightarrow> string" where
  "violation_label v =
     (case v of
        Some d \<Rightarrow> if trim (category d) \<noteq> [] then trim (category d) else ''policy_violation''
      | None \<Rightarrow> ''policy_violation'')"












subsection \<open>The visible window\<close>

text \<open>The memo \<open>activeEvents\<close>: the filtered events up to the clamped playback index.\<close>

definition activeEvents :: "timeline_event list \<Rightarrow> int \<Rightarrow> timeline_event list" where
  "activeEvents filtered idx =
     (if length filtered = 0 then []
      else (let clampedIndex = min (max idx (- 1)) (int (length filtered) - 1)
            in if clampedIndex < 0 then [] else take (nat (clampedIndex + 1)) filtered))"

subsection \<open>JavaScript numbers\<close>

text \<open>
  A JavaScript number is an IEEE 754 binary64 value, and \<open>+\<close>, \<open>*\<close> and \<open>/\<close> return
  the exact result rounded to the nearest such value, ties to the even significand. The
  numbers of the metrics memo are finite and far from the subnormal and the overflow
  range, so a number is modelled by the rational it denotes, and an operation by the
  exact operation followed by \<open>to_double\<close>. \<open>binade k x 0\<close> is the exponent \<open>e\<close> with
  \<open>2^e \<le> x < 2^(e+1)\<close>, found in at most \<open>k\<close> steps; a binary64 value of that binade
  is a multiple of \<open>2^(e-52)\<close>.
\<close>

fun binade :: "nat \<Rightarrow> rat \<Rightarrow> int \<Rightarrow> int" where
  "binade 0 x e = e"
| "binade (Suc k) x e =
     (if 2 \<le> x then binade k (x / 2) (e + 1)
      else if x < 1 then binade k (x * 2) (e - 1)
      else e)"

definition pow2 :: "int \<Rightarrow> rat" where
  "pow2 e = (if 0 \<le> e then 2 ^ nat e else 1 / 2 ^ nat (- e))"

definition round_half_even :: "rat \<Rightarrow> int" where
  "round_half_even q =
     (let n = \<lfloor>q\<rfloor>; r = q - of_int n
      in if r < 1 / 2 then n
         else if 1 / 2 < r then n + 1
         else if even n then n else n + 1)"

definition to_double :: "rat \<Rightarrow> rat" where
  "to_double x =
     (if x = 0 then 0
      else (let ulp = pow2 (binade 1100 \<bar>x\<bar> 0 - 52)
            in sgn x * of_int (round_half_even (\<bar>x\<bar> / ulp)) * ulp))"

definition js_plus :: "rat \<Rightarrow> rat \<Rightarrow> rat" where
  "js_plus a b = to_double (a + b)"

definition js_times :: "rat \<Rightarrow> rat \<Rightarrow> rat" where
  "js_times a b = to_double (a * b)"

definition js_divide :: "rat \<Rightarrow> rat \<Rightarrow> rat" where
  "js_divide a b = to_double (a / b)"

text \<open>
  \<open>Math.round\<close>: the integer closest to the number, the larger one of two equally
  close. The template literal prints the result, an integer, in decimal.
\<close>

definition Math_round :: "rat \<Rightarrow> int" where
  "Math_round x = \<lfloor>x + 1 / 2\<rfloor>"

fun decimal :: "nat \<Rightarrow> string" where
  "decimal n =
     (if n < 10 then [''0123456789'' ! n]
      else decimal (n div 10) @ [''0123456789'' ! (n mod 10)])"

definition number_string :: "int \<Rightarrow> string" where
  "number_string i = (if i < 0 then ''-'' @ decimal (nat (- i)) else decimal (nat i))"

subsection \<open>Metrics\<close>

text \<open>
  The part of the \<open>metrics\<close> memo behind the entries \<open>Judge agreement\<close> and
  \<open>Violations flagged\<close>. The three counters are numbers that only ever hold small
  non-negative integers, which binary64 represents exactly.
\<close>

definition count_verdicts :: "timeline_event list \<Rightarrow> nat \<times> nat \<times> nat" where
  "count_verdicts judgeEvents =
     foldl (\<lambda>(allowCount, warnCount, blockCount) event.
              if verdict (payload event) = Some ''allow'' then (allowCount + 1, warnCount, blockCount)
              else if verdict (payload event) = Some ''warn'' then (allowCount, warnCount + 1, blockCount)
              else if verdict (payload event) = Some ''block'' then (allowCount, warnCount, blockCount + 1)
              else (allowCount, warnCount, blockCount))
       (0, 0, 0) judgeEvents"

definition agreement_string :: "nat \<Rightarrow> nat \<Rightarrow> nat \<Rightarrow> string" where
  "agreement_string allowCount warnCount totalJudge =
     (let weightedAgreement = js_plus (of_nat allowCount) (js_times (of_nat warnCount) (to_double (2 / 5)))
      in if totalJudge = 0 then ''pending''
         else number_string
                (Math_round (js_times (js_divide weightedAgreement (of_nat totalJudge)) 100)) @ ''%'')"

definition judgeAgreement :: "timeline_event list \<Rightarrow> string" where
  "judgeAgreement window =
     (let judgeEvents = filter (\<lambda>event. event_type event = judge_verdict) window;
          totalJudge = length judgeEvents
      in case count_verdicts judgeEvents of
           (allowCount, warnCount, blockCount) \<Rightarrow> agreement_string allowCount warnCount totalJudge)"

definition violationCount :: "timeline_event list \<Rightarrow> nat" where
  "violationCount window =
     (let judgeEvents = filter (\<lambda>event. event_type event = judge_verdict) window
      in case count_verdicts judgeEvents of
           (allowCount, warnCount, blockCount) \<Rightarrow> warnCount + blockCount)"

text \<open>
  The formula as the claim states it, in exact arithmetic, with \<open>round\<close> the nearest
  integer (the larger of two equally near); whether a value lies half-way between two
  integers; and the verdict events of a window with a given verdict.
\<close>

definition stated_percentage :: "nat \<Rightarrow> nat \<Rightarrow> nat \<Rightarrow> rat" where
  "stated_percentage allowCount warnCount totalVerdictCount =
     100 * (of_nat allowCount + 2 / 5 * of_nat warnCount) / of_nat totalVerdictCount"

definition stated_agreement :: "nat \<Rightarrow> nat \<Rightarrow> nat \<Rightarrow> int" where
  "stated_agreement allowCount warnCount totalVerdictCount =
     \<lfloor>stated_percentage allowCount warnCount totalVerdictCount + 1 / 2\<rfloor>"

definition half_way :: "rat \<Rightarrow> bool" where
  "half_way x = (frac x = 1 / 2)"

text \<open>
  The unit roundoff of binary64, and \<open>y\<close> approximating a non-negative \<open>x\<close> with
  relative error at most \<open>eps\<close>.
\<close>

definition unit_roundoff :: rat where
  "unit_roundoff = 1 / 2 ^ 53"

definition approx :: "rat \<Rightarrow> rat \<Rightarrow> rat \<Rightarrow> bool" where
  "approx eps x y = (0 \<le> x \<and> \<bar>y - x\<bar> \<le> eps * x)"

definition verdicts_with :: "string \<Rightarrow> timeline_event list \<Rightarrow> timeline_event list" where
  "verdicts_with v window =
     filter (\<lambda>e. verdict (payload e) = Some v) (of_type judge_verdict window)"

text \<open>
  A window of verdict events of pairwise different exchanges: \<open>a\<close> with the verdict
  \<open>allow\<close>, then \<open>w\<close> with \<open>warn\<close>, then \<open>b\<close> with \<open>block\<close>.
\<close>

definition verdict_window :: "nat \<Rightarrow> nat \<Rightarrow> nat \<Rightarrow> timeline_event list" where
  "verdict_window a w b =
     map (\<lambda>n. verdict_event (''a-'' @ replicate n (CHR ''x'')) at_ms1 ''allow'' None) [0..<a]
     @ map (\<lambda>n. verdict_event (''w-'' @ replicate n (CHR ''x'')) at_ms2 ''warn'' None) [0..<w]
     @ map (\<lambda>n. verdict_event (''b-'' @ replicate n (CHR ''x'')) at_ms3 ''block'' None) [0..<b]"

section \<open>Reveal gate (Timeline.tsx, App.tsx, lib/api.ts)\<close>

text \<open>
  \<open>recordReveal\<close> posts \<open>{run_id, exchange_id, field, reason}\<close> to \<open>/reveal\<close> and
  throws when the response is not ok, with the status and the body of the response in
  the message (\<open>response.text().catch(() => response.statusText)\<close>: the status text when
  the body cannot be read). The backend is outside the repository: it is the parameter
  \<open>backend\<close>, which answers a request with a response or lets \<open>fetch\<close> reject, and
  the requests issued so far are state that every call threads through. A promise that
  rejects is \<open>Inl\<close> of the error message, one that resolves is \<open>Inr\<close>.
\<close>

datatype reveal_field = reveal_llm_response | reveal_judge_rationale

record reveal_call =
  call_run_id :: string
  call_exchange_id :: string
  call_field :: reveal_field
  call_reason :: "string option"

record http_response =
  response_ok :: bool
  response_status :: nat
  response_statusText :: string
  response_text :: "string option"

datatype fetch_outcome = Rejected string | Response http_response

type_synonym reveal_result = "(string + unit) \<times> reveal_call list"

definition recordReveal :: "(reveal_call \<Rightarrow> fetch_outcome) \<Rightarrow> reveal_call \<Rightarrow> reveal_call list \<Rightarrow> reveal_result" where
  "recordReveal backend params issued =
     (case backend params of
        Rejected msg \<Rightarrow> Inl msg
      | Response r \<Rightarrow>
          if response_ok r then Inr ()
          else Inl (''Reveal logging failed ('' @ number_string (int (response_status r)) @ ''): ''
                    @ nullish (response_text r) (response_statusText r)),
      issued @ [params])"

text \<open>
  \<open>handleRevealRequest\<close> of \<open>App\<close>; \<open>!selectedRunId\<close> holds of \<open>null\<close> and of \<open>''\<close>.
  It passes no \<open>reason\<close>.
\<close>

definition handleRevealRequest :: "string option \<Rightarrow> bool \<Rightarrow> (reveal_call \<Rightarrow> fetch_outcome)
    \<Rightarrow> string \<Rightarrow> reveal_field \<Rightarrow> reveal_call list \<Rightarrow> reveal_result" where
  "handleRevealRequest selectedRunId usingDemoData backend exchange field issued =
     (case truthy_string selectedRunId of
        None \<Rightarrow> (Inl ''Reveal logging unavailable in demo mode'', issued)
      | Some runId \<Rightarrow>
          if usingDemoData then (Inl ''Reveal logging unavailable in demo mode'', issued)
          else recordReveal backend
                 \<lparr>call_run_id = runId, call_exchange_id = exchange, call_field = field,
                  call_reason = None\<rparr>
                 issued)"

text \<open>
  The reveal state of the \<open>Timeline\<close> component: \<open>revealedMap\<close>, \<open>revealErrors\<close> and
  \<open>pendingReveal\<close>, each a \<open>Record\<close> keyed by exchange id.
\<close>

record revealed_flags =
  flag_response :: "bool option"
  flag_rationale :: "bool option"

record reveal_state =
  revealedMap :: "string \<rightharpoonup> revealed_flags"
  revealErrors :: "string \<rightharpoonup> string option"
  pendingReveal :: "string \<rightharpoonup> bool"

definition set_reveal_error :: "string \<Rightarrow> string \<Rightarrow> reveal_state \<Rightarrow> reveal_state" where
  "set_reveal_error i msg ui = ui\<lparr>revealErrors := (revealErrors ui)(i \<mapsto> Some msg)\<rparr>"

text \<open>
  \<open>handleRevealResponse\<close> for one group \<open>grp\<close>. \<open>onReveal\<close> is the optional prop; the
  \<open>await\<close> is the call of that function, and \<open>try\<close>/\<open>catch\<close>/\<open>finally\<close> are the
  two cases of its result followed by the reset of the pending flag.
\<close>

definition handleRevealResponse ::
    "(string \<Rightarrow> reveal_field \<Rightarrow> reveal_call list \<Rightarrow> reveal_result) option \<Rightarrow> bool \<Rightarrow> turn_group
     \<Rightarrow> reveal_state \<times> reveal_call list \<Rightarrow> reveal_state \<times> reveal_call list" where
  "handleRevealResponse onReveal allowReveal grp st =
     (case st of (ui, issued) \<Rightarrow>
      (case onReveal of
         None \<Rightarrow> (set_reveal_error (exchangeId grp) ''Reveal logging unavailable.'' ui, issued)
       | Some reveal \<Rightarrow>
           if \<not> allowReveal
           then (set_reveal_error (exchangeId grp) ''Reveals disabled in demo mode.'' ui, issued)
           else (case response grp of
              None \<Rightarrow>
                (set_reveal_error (exchangeId grp) ''Model response not available yet.'' ui, issued)
            | Some responsePayload \<Rightarrow>
                (case truthy_string (pii_raw_text responsePayload) of
                   None \<Rightarrow>
                     (set_reveal_error (exchangeId grp) ''Full response not available.'' ui, issued)
                 | Some raw_text \<Rightarrow>
                     (let pending = ui\<lparr>pendingReveal := (pendingReveal ui)(exchangeId grp \<mapsto> True)\<rparr>
                      in case reveal (exchangeId grp) reveal_llm_response issued of
                           (Inr u, issued') \<Rightarrow>
                             (pending\<lparr>revealedMap := (revealedMap pending)(exchangeId grp \<mapsto>
                                  (case revealedMap pending (exchangeId grp) of
                                     Some flags \<Rightarrow> flags\<lparr>flag_response := Some True\<rparr>
                                   | None \<Rightarrow> \<lparr>flag_response = Some True, flag_rationale = None\<rparr>)),
                                revealErrors := (revealErrors pending)(exchangeId grp \<mapsto> None),
                                pendingReveal := (pendingReveal pending)(exchangeId grp \<mapsto> False)\<rparr>,
                              issued')
                         | (Inl err, issued') \<Rightarrow>
                             (pending\<lparr>revealErrors := (revealErrors pending)(exchangeId grp \<mapsto>
                                  Some ''Failed to log reveal. Please retry.''),
                                pendingReveal := (pendingReveal pending)(exchangeId grp \<mapsto> False)\<rparr>,
                              issued'))))))"

text \<open>
  What the render reads: \<open>isResponseRevealed\<close> and \<open>hasRawResponse\<close>; and how \<open>App\<close>
  mounts the timeline: \<open>allowReveal={!usingDemoData && Boolean(selectedRunId)}\<close>,
  \<open>onReveal={handleRevealRequest}\<close>.
\<close>

definition isResponseRevealed :: "reveal_state \<Rightarrow> string \<Rightarrow> bool" where
  "isResponseRevealed ui i =
     (case revealedMap ui i of Some flags \<Rightarrow> flag_response flags = Some True | None \<Rightarrow> False)"

definition hasRawResponse :: "turn_group \<Rightarrow> bool" where
  "hasRawResponse grp =
     (case response grp of
        Some responsePayload \<Rightarrow> truthy_string (pii_raw_text responsePayload) \<noteq> None
      | None \<Rightarrow> False)"

text \<open>
  \<open>usingDemoData\<close> of \<open>App\<close>:
  \<open>(!timelineQuery.data && timelineQuery.isError) || (noRunsAvailable && !selectedRunId)\<close>,
  from whether the timeline query holds data, whether it has failed, and whether the
  list of runs has loaded empty.
\<close>

definition usingDemoData_of :: "bool \<Rightarrow> bool \<Rightarrow> bool \<Rightarrow> string option \<Rightarrow> bool" where
  "usingDemoData_of timelineHasData timelineIsError noRunsAvailable selectedRunId =
     ((\<not> timelineHasData \<and> timelineIsError)
      \<or> (noRunsAvailable \<and> truthy_string selectedRunId = None))"

definition app_allowReveal :: "string option \<Rightarrow> bool \<Rightarrow> bool" where
  "app_allowReveal selectedRunId usingDemoData =
     (\<not> usingDemoData \<and> truthy_string selectedRunId \<noteq> None)"

definition app_reveal :: "string option \<Rightarrow> bool \<Rightarrow> (reveal_call \<Rightarrow> fetch_outcome) \<Rightarrow> turn_group
     \<Rightarrow> reveal_state \<times> reveal_call list \<Rightarrow> reveal_state \<times> reveal_call list" where
  "app_reveal selectedRunId usingDemoData backend grp st =
     handleRevealResponse (Some (handleRevealRequest selectedRunId usingDemoData backend))
       (app_allowReveal selectedRunId usingDemoData) grp st"

text \<open>
  Whether a run is live, as \<open>App\<close> reads it of the current run
  (\<open>(currentRun.tags?.ui_live ?? '').toLowerCase() === 'true'\<close>) and \<open>Timeline\<close> of the
  run of a group. \<open>toLowerCase\<close> turns \<open>T\<close>, \<open>R\<close>, \<open>U\<close> and \<open>E\<close> into the
  letters of \<open>true\<close> and no other character into any of them, so the comparison
  holds of the four-letter strings that spell \<open>true\<close> in either case. The value is used
  for the layout of the page and the staging of the cards.
\<close>

definition isLiveRun :: "run_metadata \<Rightarrow> bool" where
  "isLiveRun currentRun =
     list_all2 (\<lambda>c (lower, upper). c = lower \<or> c = upper)
       (nullish (map_of (tags currentRun) ''ui_live'') [])
       [(CHR ''t'', CHR ''T''), (CHR ''r'', CHR ''R''), (CHR ''u'', CHR ''U''), (CHR ''e'', CHR ''E'')]"

definition reveal_error :: "reveal_state \<times> reveal_call list \<Rightarrow> string \<Rightarrow> string option" where
  "reveal_error st i = (case revealErrors (fst st) i of Some e \<Rightarrow> e | None \<Rightarrow> None)"

definition initial_reveal_state :: reveal_state where
  "initial_reveal_state = \<lparr>revealedMap = Map.empty, revealErrors = Map.empty,
     pendingReveal = Map.empty\<rparr>"

text \<open>
  A backend that records every reveal, one that refuses, and a recorded run that is not
  live, with one exchange of it.
\<close>

definition recording_backend :: "reveal_call \<Rightarrow> fetch_outcome" where
  "recording_backend params =
     Response \<lparr>response_ok = True, response_status = 200, response_statusText = ''OK'',
               response_text = Some ''recorded''\<rparr>"

definition refusing_backend :: "reveal_call \<Rightarrow> fetch_outcome" where
  "refusing_backend params =
     Response \<lparr>response_ok = False, response_status = 503,
               response_statusText = ''Service Unavailable'', response_text = None\<rparr>"

definition recorded_run :: run_metadata where
  "recorded_run = \<lparr>run_id = ''run-7'', scenario_id = Some ''A'',
     started_at = ''1970-01-01T00:00:00.000Z'', tags = [(''ui_live'', ''false'')]\<rparr>"

definition example_group :: "string option \<Rightarrow> turn_group" where
  "example_group raw_text =
     \<lparr>exchangeId = ''ex-1'', turnIndex = 0, createdAt = at_ms1, group_run = recorded_run,
      userPrompt = None,
      response = Some (empty_payload\<lparr>source := Some example_source,
                   pii_redacted_text := Some ''[redacted]'', pii_raw_text := raw_text\<rparr>),
      judges = []\<rparr>"

section \<open>Live-event buffer (ui/dashboard/src/App.tsx)\<close>

text \<open>
  The state cell \<open>streamEvents\<close> and its writers. \<open>onEvent\<close> is the updater that the
  stream subscription passes to \<open>setStreamEvents\<close> for each delivered event;
  \<open>slice(-500)\<close> keeps the last 500 elements. The cell is reset to \<open>[]\<close> when the
  run changes or a timeline is fetched.
\<close>

definition onEvent :: "timeline_event \<Rightarrow> timeline_event list \<Rightarrow> timeline_event list" where
  "onEvent event prev =
     (let exists = list_ex (\<lambda>existing.
                      exchange_id existing = exchange_id event
                    \<and> event_type existing = event_type event
                    \<and> created_at existing = created_at event) prev
      in if exists then prev
         else (let next = prev @ [event]
               in if length next > 500 then drop (length next - 500) next else next))"

definition stream_deliveries :: "timeline_event list \<Rightarrow> timeline_event list \<Rightarrow> timeline_event list" where
  "stream_deliveries prev events = foldl (\<lambda>buffer event. onEvent event buffer) prev events"

text \<open>
  The updater that \<open>handlePromptSubmit\<close> passes to \<open>setStreamEvents\<close> with the events
  a console submission returned: it copies \<open>prev\<close>, collects the keys of the copy, and
  pushes every returned event whose key is new.
\<close>

definition submit_merge :: "timeline_event list \<Rightarrow> timeline_event list \<Rightarrow> timeline_event list" where
  "submit_merge prev result_events =
     snd (foldl push (foldl (\<lambda>seen event. insert (event_key event) seen) {} prev, prev)
            result_events)"

definition stream_buffer_ok :: "timeline_event list \<Rightarrow> bool" where
  "stream_buffer_ok buffer = (length buffer \<le> 500 \<and> distinct (map event_triple buffer))"

text \<open>Live events of pairwise different exchanges, and two events of a console reply.\<close>

definition numbered_event :: "nat \<Rightarrow> timeline_event" where
  "numbered_event n = response_event (''live-'' @ replicate n (CHR ''x'')) at_ms1 None ''live''"

definition console_reply :: "timeline_event list" where
  "console_reply =
     [response_event ''console'' at_ms2 None ''reply'',
      verdict_event ''console'' at_ms3 ''allow'' None]"

section \<open>Playback controller (ui/dashboard/src/App.tsx)\<close>

text \<open>
  The playback state of the \<open>App\<close> component: the four \<open>useState\<close> cells
  \<open>playbackIndex\<close>, \<open>isPlaying\<close>, \<open>playbackSpeed\<close> and \<open>showAllTurns\<close>.
  Every handler closes over \<open>filteredEvents.length\<close>, which is passed here as the
  natural number \<open>len\<close>.
\<close>

record playback_state =
  playbackIndex :: int
  isPlaying :: bool
  playbackSpeed :: rat
  showAllTurns :: bool

definition handleStepForward :: "nat \<Rightarrow> playback_state \<Rightarrow> playback_state" where
  "handleStepForward len s =
     (if len = 0 then s
      else s\<lparr>isPlaying := False, showAllTurns := False,
             playbackIndex := min (playbackIndex s + 1) (int len - 1)\<rparr>)"

definition handleStepBack :: "nat \<Rightarrow> playback_state \<Rightarrow> playback_state" where
  "handleStepBack len s =
     (if len = 0 then s
      else s\<lparr>isPlaying := False, showAllTurns := False,
             playbackIndex := max (playbackIndex s - 1) (- 1)\<rparr>)"

text \<open>
  \<open>handleScrub\<close> is called by the slider of \<open>PlaybackControls\<close> only, with
  \<open>Number(event.target.value)\<close> of a range input whose bounds are the integers \<open>0\<close> and
  \<open>totalEvents - 1\<close> and whose step is the default \<open>1\<close>: its argument is an integer.
\<close>

definition handleScrub :: "nat \<Rightarrow> int \<Rightarrow> playback_state \<Rightarrow> playback_state" where
  "handleScrub len i s =
     (if len = 0 then s
      else s\<lparr>playbackIndex := min (max i 0) (int len - 1),
             isPlaying := False, showAllTurns := False\<rparr>)"

definition handleReset :: "playback_state \<Rightarrow> playback_state" where
  "handleReset s = s\<lparr>isPlaying := False, playbackIndex := - 1, showAllTurns := False\<rparr>"

definition handlePlay :: "nat \<Rightarrow> playback_state \<Rightarrow> playback_state" where
  "handlePlay len s =
     (if len = 0 then s
      else s\<lparr>isPlaying := True, showAllTurns := False,
             playbackIndex :=
               (if playbackIndex s \<ge> int len - 1 \<or> playbackIndex s < 0 then 0
                else playbackIndex s)\<rparr>)"

definition handlePause :: "playback_state \<Rightarrow> playback_state" where
  "handlePause s = s\<lparr>isPlaying := False\<rparr>"

text \<open>
  The effect with the dependencies \<open>[selectedRunId, combinedEvents.length]\<close> (App.tsx
  265 to 270): when the run or the length of the merged feed has changed, playback moves
  to the last merged event and stops. \<open>combinedLen\<close> is the new length of
  \<open>combinedEvents\<close>.
\<close>

definition feedEffect :: "nat \<Rightarrow> playback_state \<Rightarrow> playback_state" where
  "feedEffect combinedLen s =
     (let defaultIndex = (if combinedLen > 0 then int combinedLen - 1 else - 1)
      in s\<lparr>playbackIndex := defaultIndex, isPlaying := False, showAllTurns := False\<rparr>)"

text \<open>
  The effect that runs whenever \<open>filteredEvents.length\<close> changes (App.tsx 377 to 389,
  the \<open>useEffect\<close> with dependency \<open>[filteredEvents.length]\<close>); \<open>len\<close> is the new
  length.
\<close>

definition clampEffect :: "nat \<Rightarrow> playback_state \<Rightarrow> playback_state" where
  "clampEffect len s =
     (if len = 0 then s\<lparr>playbackIndex := - 1, isPlaying := False\<rparr>
      else s\<lparr>playbackIndex :=
               (if playbackIndex s < 0 then int len - 1
                else min (playbackIndex s) (int len - 1))\<rparr>)"

text \<open>
  The effect that drives playback (App.tsx 391 to 406), with the dependencies
  \<open>[isPlaying, playbackIndex, filteredEvents.length, playbackSpeed]\<close>. It reads
  \<open>isPlaying\<close> and \<open>playbackIndex\<close> of the render it belongs to (\<open>rendered\<close>) and
  stops playback on an empty sequence and at the last event; otherwise it arms the timer
  that advances the index later.
\<close>

definition playingEffect :: "nat \<Rightarrow> playback_state \<Rightarrow> playback_state \<Rightarrow> playback_state" where
  "playingEffect len rendered s =
     (if \<not> isPlaying rendered then s
      else if len = 0 then s\<lparr>isPlaying := False\<rparr>
      else if playbackIndex rendered \<ge> int len - 1 then s\<lparr>isPlaying := False\<rparr>
      else s)"

text \<open>
  The effects of a render in which \<open>filteredEvents.length\<close> has changed to \<open>len\<close>, in
  the order of their declaration. \<open>feedChanged\<close> says whether \<open>selectedRunId\<close> or
  \<open>combinedEvents.length\<close> has changed as well (the filter selection alone changes
  neither), and \<open>combinedLen\<close> is the length of \<open>combinedEvents\<close>. React applies the
  updates that the effects queue in order, so the functional update of the clamp effect
  (\<open>setPlaybackIndex((prev) => ...)\<close>) sees the index that the feed effect has set.
\<close>

definition lengthChangeEffects :: "bool \<Rightarrow> nat \<Rightarrow> nat \<Rightarrow> playback_state \<Rightarrow> playback_state" where
  "lengthChangeEffects feedChanged combinedLen len s =
     playingEffect len s (clampEffect len (if feedChanged then feedEffect combinedLen s else s))"

text \<open>The three calls the clamping property speaks of, and a run of them.\<close>

datatype playback_call = Scrub int | StepForward | StepBack

fun applyCall :: "nat \<Rightarrow> playback_state \<Rightarrow> playback_call \<Rightarrow> playback_state" where
  "applyCall len s (Scrub i) = handleScrub len i s"
| "applyCall len s StepForward = handleStepForward len s"
| "applyCall len s StepBack = handleStepBack len s"

definition runCalls :: "nat \<Rightarrow> playback_call list \<Rightarrow> playback_state \<Rightarrow> playback_state" where
  "runCalls len cs s = foldl (applyCall len) s cs"

text \<open>
  The specification's \<open>clamp(x, lo, hi)\<close>: \<open>x\<close> raised to \<open>lo\<close> and then lowered to
  \<open>hi\<close>. The upper bound has the last word, as in the code's
  \<open>Math.min(Math.max(index, 0), filteredEvents.length - 1)\<close>; the order matters only for
  \<open>clamp(i, 0, -1)\<close> on an empty sequence, where \<open>-1\<close> is the one index of
  \<open>[-1, length - 1]\<close>.
\<close>

definition spec_clamp :: "int \<Rightarrow> int \<Rightarrow> int \<Rightarrow> int" where
  "spec_clamp x lo hi = min (max x lo) hi"

definition index_in_range :: "nat \<Rightarrow> playback_state \<Rightarrow> bool" where
  "index_in_range len s = (- 1 \<le> playbackIndex s \<and> playbackIndex s \<le> int len - 1)"

text \<open>
  While the filtered sequence is empty nothing is playing: the state in which a step or
  a scrub call finds the controller. The clamp effect establishes it whenever the length
  changes, and no handler gives it up.
\<close>

definition idle_when_empty :: "nat \<Rightarrow> playback_state \<Rightarrow> bool" where
  "idle_when_empty len s = (len = 0 \<longrightarrow> \<not> isPlaying s)"

definition paused_at :: "int \<Rightarrow> playback_state" where
  "paused_at i = \<lparr>playbackIndex = i, isPlaying = False, playbackSpeed = 1, showAllTurns = False\<rparr>"

definition playing_at :: "int \<Rightarrow> playback_state" where
  "playing_at i = \<lparr>playbackIndex = i, isPlaying = True, playbackSpeed = 1, showAllTurns = False\<rparr>"

section \<open>Properties of the event source adapter\<close>

lemma toTimelineEvent_verdict:
  "raw_event_type raw = Some ''judge_verdict'' \<Longrightarrow>
   event_type (toTimelineEvent now raw) = judge_verdict
   \<and> verdict_shaped (payload (toTimelineEvent now raw))"
  by (simp add: toTimelineEvent_def Let_def nullish_def verdict_shaped_def empty_payload_def)

lemma toTimelineEvent_other:
  "raw_event_type raw \<noteq> Some ''judge_verdict'' \<Longrightarrow>
   event_type (toTimelineEvent now raw) = llm_response
   \<and> response_shaped (payload (toTimelineEvent now raw))"
  by (cases "raw_event_type raw")
     (simp_all add: toTimelineEvent_def Let_def nullish_def response_shaped_def empty_payload_def)

text \<open>
  C10. For every raw event received from the backend, the adapter's normalization
  returns an event whose \<open>event_type\<close> is \<open>judge_verdict\<close> or \<open>llm_response\<close>. A raw
  \<open>event_type\<close> other than \<open>'judge_verdict'\<close> (a missing one included, and so
  \<open>'user_prompt'\<close>, \<open>'metric_snapshot'\<close> and \<open>'audit_record'\<close>) is coerced to
  \<open>llm_response\<close> with a response-shaped payload; \<open>'judge_verdict'\<close> is kept, with a
  verdict-shaped payload. So no event of a normalized batch has the prompt, the
  metric-snapshot or the audit kind.
\<close>

theorem toTimelineEvent_two_kinds:
  "event_type (toTimelineEvent now raw) \<in> {judge_verdict, llm_response}
   \<and> (raw_event_type raw \<noteq> Some ''judge_verdict'' \<longrightarrow>
        event_type (toTimelineEvent now raw) = llm_response
      \<and> response_shaped (payload (toTimelineEvent now raw)))
   \<and> (raw_event_type raw = Some ''judge_verdict'' \<longrightarrow>
        event_type (toTimelineEvent now raw) = judge_verdict
      \<and> verdict_shaped (payload (toTimelineEvent now raw)))
   \<and> (\<forall>e \<in> set (normalize_events now raws).
        event_type e \<noteq> user_prompt \<and> event_type e \<noteq> metric_snapshot
      \<and> event_type e \<noteq> audit_record)"
proof -
  have kinds: "\<And>r. event_type (toTimelineEvent now r) \<in> {judge_verdict, llm_response}"
    using toTimelineEvent_verdict toTimelineEvent_other by (metis insertCI)
  have all: "\<forall>e \<in> set (normalize_events now raws).
        event_type e \<noteq> user_prompt \<and> event_type e \<noteq> metric_snapshot
      \<and> event_type e \<noteq> audit_record"
  proof
    fix e assume "e \<in> set (normalize_events now raws)"
    then obtain r where "e = toTimelineEvent now r" by (auto simp: normalize_events_def)
    then show "event_type e \<noteq> user_prompt \<and> event_type e \<noteq> metric_snapshot
      \<and> event_type e \<noteq> audit_record"
      using kinds [of r] by auto
  qed
  from kinds [of raw] toTimelineEvent_verdict [of raw now] toTimelineEvent_other [of raw now] all
  show ?thesis by blast
qed

theorem toTimelineEvent_two_kinds_witness:
  "map event_type (normalize_events at_ms2
      [example_raw (Some ''user_prompt''), example_raw (Some ''metric_snapshot''),
       example_raw (Some ''audit_record''), example_raw None,
       example_raw (Some ''judge_verdict''), example_raw (Some ''llm_response'')])
    = [llm_response, llm_response, llm_response, llm_response, judge_verdict, llm_response]
   \<and> response_shaped (payload (toTimelineEvent at_ms2 (example_raw (Some ''user_prompt''))))
   \<and> verdict_shaped (payload (toTimelineEvent at_ms2 (example_raw (Some ''judge_verdict''))))"
proof -
  have ev: "map event_type (normalize_events at_ms2
      [example_raw (Some ''user_prompt''), example_raw (Some ''metric_snapshot''),
       example_raw (Some ''audit_record''), example_raw None,
       example_raw (Some ''judge_verdict''), example_raw (Some ''llm_response'')])
    = [llm_response, llm_response, llm_response, llm_response, judge_verdict, llm_response]"
    by (simp add: normalize_events_def toTimelineEvent_def example_raw_def nullish_def Let_def)
  from toTimelineEvent_two_kinds [of at_ms2 "example_raw (Some ''user_prompt'')" "[]"]
    toTimelineEvent_two_kinds [of at_ms2 "example_raw (Some ''judge_verdict'')" "[]"] ev
  show ?thesis by (simp add: example_raw_def)
qed


section \<open>Properties of the exchange grouper\<close>

lemma first_seen_snoc:
  "first_seen (xs @ [x]) = (if x \<in> set xs then first_seen xs else first_seen xs @ [x])"
  by (simp add: first_seen_def)

lemma set_first_seen: "set (first_seen xs) = set xs"
  by (simp add: first_seen_def)

lemma distinct_first_seen: "distinct (first_seen xs)"
  by (simp add: first_seen_def)

lemma groups_snoc: "groups (evs @ [e]) = group_step (groups evs) e"
  by (simp add: groups_def)

lemma exchangeId_record_event: "exchangeId (record_event e g) = exchangeId g"
  by (simp add: record_event_def Let_def)

lemma exchangeId_foldl:
  "exchangeId (foldl (\<lambda>g e. record_event e g) g es) = exchangeId g"
  by (induction es arbitrary: g) (simp_all add: exchangeId_record_event)

lemma exchangeId_build_entry: "exchangeId (build_entry es) = exchange_id (hd es)"
  by (simp add: build_entry_def exchangeId_foldl new_entry_def)

lemma build_entry_snoc:
  "es \<noteq> [] \<Longrightarrow> build_entry (es @ [e]) = record_event e (build_entry es)"
  by (simp add: build_entry_def)

lemma build_entry_single: "build_entry [e] = record_event e (new_entry e)"
  by (simp add: build_entry_def)

lemma update_entry_map:
  "distinct is \<Longrightarrow> (\<And>i. i \<in> set is \<Longrightarrow> exchangeId (f i) = i) \<Longrightarrow>
   update_entry j h (map f is) = map (\<lambda>i. if i = j then h (f i) else f i) is"
  by (induction "is") auto

lemma hd_events_of:
  "i \<in> exchange_id ` set evs \<Longrightarrow> exchange_id (hd (events_of i evs)) = i"
  unfolding events_of_def
  by (induction evs) auto

lemma events_of_nonempty:
  "i \<in> exchange_id ` set evs \<Longrightarrow> events_of i evs \<noteq> []"
  unfolding events_of_def
  by (auto simp: filter_empty_conv)

text \<open>
  The grouper, characterised: one entry per distinct \<open>exchange_id\<close>, in first-seen
  order, each the fold of \<open>record_event\<close> over the events of its exchange.
\<close>

lemma groups_char:
  "groups evs = map (\<lambda>i. build_entry (events_of i evs)) (first_seen (map exchange_id evs))"
proof (induction evs rule: rev_induct)
  case Nil
  show ?case by (simp add: groups_def first_seen_def)
next
  case (snoc e evs)
  let ?ids = "first_seen (map exchange_id evs)"
  let ?f = "\<lambda>i. build_entry (events_of i evs)"
  have ids: "set ?ids = exchange_id ` set evs" by (simp add: set_first_seen)
  have fid: "\<And>i. i \<in> set ?ids \<Longrightarrow> exchangeId (?f i) = i"
    using ids by (simp add: exchangeId_build_entry hd_events_of)
  show ?case
  proof (cases "exchange_id e \<in> exchange_id ` set evs")
    case True
    then have ex: "\<exists>g \<in> set (groups evs). exchangeId g = exchange_id e"
      using snoc.IH ids fid by auto
    have "groups (evs @ [e]) = update_entry (exchange_id e) (record_event e) (map ?f ?ids)"
      using ex snoc.IH by (simp add: groups_snoc group_step_def)
    also have "\<dots> = map (\<lambda>i. if i = exchange_id e then record_event e (?f i) else ?f i) ?ids"
      using fid by (intro update_entry_map) (simp_all add: distinct_first_seen)
    also have "\<dots> = map (\<lambda>i. build_entry (events_of i (evs @ [e]))) ?ids"
    proof (rule map_cong[OF refl])
      fix i assume "i \<in> set ?ids"
      then have ne: "events_of i evs \<noteq> []" using ids events_of_nonempty by auto
      show "(if i = exchange_id e then record_event e (?f i) else ?f i)
            = build_entry (events_of i (evs @ [e]))"
        using ne by (auto simp: events_of_def build_entry_snoc)
    qed
    finally show ?thesis using True by (simp add: first_seen_snoc)
  next
    case False
    then have nex: "\<not> (\<exists>g \<in> set (groups evs). exchangeId g = exchange_id e)"
      using snoc.IH ids fid by auto
    have a: "map (\<lambda>i. build_entry (events_of i (evs @ [e]))) ?ids = map ?f ?ids"
    proof (rule map_cong[OF refl])
      fix i assume "i \<in> set ?ids"
      then have "i \<noteq> exchange_id e" using False ids by blast
      then show "build_entry (events_of i (evs @ [e])) = ?f i" by (simp add: events_of_def)
    qed
    have nid: "\<forall>x \<in> set evs. exchange_id x \<noteq> exchange_id e"
      using False by (metis imageI)
    have b: "events_of (exchange_id e) (evs @ [e]) = [e]"
      using nid by (simp add: events_of_def filter_empty_conv)
    show ?thesis
      using False nex snoc.IH a b
      by (simp add: groups_snoc group_step_def first_seen_snoc build_entry_single)
  qed
qed

lemma of_type_snoc:
  "of_type t (es @ [e]) = (if event_type e = t then of_type t es @ [e] else of_type t es)"
  by (simp add: of_type_def)

lemma judges_foldl:
  "judges (foldl (\<lambda>g e. record_event e g) g es)
   = judges g @ map payload (of_type judge_verdict es)"
  by (induction es rule: rev_induct)
     (simp_all add: of_type_snoc record_event_def Let_def, simp add: of_type_def)

lemma response_foldl:
  "response (foldl (\<lambda>g e. record_event e g) g es)
   = (case last_payload (of_type llm_response es) of None \<Rightarrow> response g | Some p \<Rightarrow> Some p)"
  by (induction es rule: rev_induct)
     (simp_all add: of_type_snoc record_event_def Let_def last_payload_def of_type_def
       split: list.splits)

lemma userPrompt_foldl:
  "userPrompt (foldl (\<lambda>g e. record_event e g) g es)
   = (case last_payload (of_type user_prompt es) of None \<Rightarrow> userPrompt g | Some p \<Rightarrow> Some p)"
  by (induction es rule: rev_induct)
     (simp_all add: of_type_snoc record_event_def Let_def last_payload_def of_type_def
       split: list.splits)

lemma createdAt_foldl:
  "createdAt (foldl (\<lambda>g e. record_event e g) g es)
   = (if es = [] then createdAt g else created_at (last es))"
  by (induction es rule: rev_induct) (simp_all add: record_event_def Let_def)

lemma judges_build_entry:
  "judges (build_entry es) = map payload (of_type judge_verdict es)"
  by (simp add: build_entry_def judges_foldl new_entry_def)

lemma response_build_entry:
  "response (build_entry es) = last_payload (of_type llm_response es)"
  by (simp add: build_entry_def response_foldl new_entry_def split: option.splits)

lemma userPrompt_build_entry:
  "userPrompt (build_entry es) = last_payload (of_type user_prompt es)"
  by (simp add: build_entry_def userPrompt_foldl new_entry_def split: option.splits)

lemma createdAt_build_entry:
  "es \<noteq> [] \<Longrightarrow> createdAt (build_entry es) = created_at (last es)"
  by (simp add: build_entry_def createdAt_foldl)

lemma groups_ids: "map exchangeId (groups evs) = first_seen (map exchange_id evs)"
proof -
  have "map exchangeId (groups evs)
        = map (\<lambda>i. exchangeId (build_entry (events_of i evs))) (first_seen (map exchange_id evs))"
    by (simp add: groups_char o_def)
  also have "\<dots> = map (\<lambda>i. i) (first_seen (map exchange_id evs))"
    by (rule map_cong[OF refl]) (simp add: set_first_seen exchangeId_build_entry hd_events_of)
  finally show ?thesis by simp
qed

lemma group_is_build:
  assumes "g \<in> set (groups evs)"
  shows "g = build_entry (events_of (exchangeId g) evs) \<and> events_of (exchangeId g) evs \<noteq> []"
proof -
  from assms obtain i where i: "i \<in> exchange_id ` set evs" and g: "g = build_entry (events_of i evs)"
    by (auto simp: groups_char set_first_seen)
  have "exchangeId g = i" using i g by (simp add: exchangeId_build_entry hd_events_of)
  then show ?thesis using g i events_of_nonempty by auto
qed

lemma groups_example_timeline:
  "map exchangeId (groups example_timeline) = [''ex-1'', ''ex-2'']
   \<and> map (\<lambda>g. length (judges g)) (groups example_timeline) = [2, 0]
   \<and> map (\<lambda>g. map_option pii_redacted_text (response g)) (groups example_timeline)
       = [Some (Some ''second answer''), Some (Some ''other exchange'')]
   \<and> map createdAt (groups example_timeline) = [at_ms3, at_ms2]"
  by (simp add: groups_def group_step_def record_event_def new_entry_def example_timeline_def
      response_event_def verdict_event_def empty_payload_def)

text \<open>
  C2. For every event sequence the grouper produces exactly one exchange per distinct
  \<open>exchange_id\<close>, in first-seen order of \<open>exchange_id\<close>. The verdict list of an
  exchange holds the payloads of the verdict events with its id, in order, so its length
  is the number of those events (a verdict is appended, never overwritten); the stored
  prompt and response are the payloads of the last prompt and the last response event
  with its id (a later one overwrites an earlier one).
\<close>

theorem grouper_one_exchange_per_id:
  "map exchangeId (groups evs) = first_seen (map exchange_id evs)
   \<and> distinct (map exchangeId (groups evs))
   \<and> set (map exchangeId (groups evs)) = exchange_id ` set evs
   \<and> (\<forall>g \<in> set (groups evs).
         judges g = map payload (of_type judge_verdict (events_of (exchangeId g) evs))
       \<and> length (judges g) = length (of_type judge_verdict (events_of (exchangeId g) evs))
       \<and> userPrompt g = last_payload (of_type user_prompt (events_of (exchangeId g) evs))
       \<and> response g = last_payload (of_type llm_response (events_of (exchangeId g) evs)))"
proof -
  have ids: "map exchangeId (groups evs) = first_seen (map exchange_id evs)"
    by (rule groups_ids)
  have per: "\<forall>g \<in> set (groups evs).
         judges g = map payload (of_type judge_verdict (events_of (exchangeId g) evs))
       \<and> length (judges g) = length (of_type judge_verdict (events_of (exchangeId g) evs))
       \<and> userPrompt g = last_payload (of_type user_prompt (events_of (exchangeId g) evs))
       \<and> response g = last_payload (of_type llm_response (events_of (exchangeId g) evs))"
  proof
    fix g assume "g \<in> set (groups evs)"
    then have g: "g = build_entry (events_of (exchangeId g) evs)"
      using group_is_build by blast
    have j: "judges g = map payload (of_type judge_verdict (events_of (exchangeId g) evs))"
      by (subst g) (simp add: judges_build_entry)
    have u: "userPrompt g = last_payload (of_type user_prompt (events_of (exchangeId g) evs))"
      by (subst g) (simp add: userPrompt_build_entry)
    have r: "response g = last_payload (of_type llm_response (events_of (exchangeId g) evs))"
      by (subst g) (simp add: response_build_entry)
    from j u r show "judges g = map payload (of_type judge_verdict (events_of (exchangeId g) evs))
       \<and> length (judges g) = length (of_type judge_verdict (events_of (exchangeId g) evs))
       \<and> userPrompt g = last_payload (of_type user_prompt (events_of (exchangeId g) evs))
       \<and> response g = last_payload (of_type llm_response (events_of (exchangeId g) evs))"
      by simp
  qed
  show ?thesis
    using per by (simp add: ids distinct_first_seen set_first_seen)
qed

theorem grouper_one_exchange_per_id_witness:
  "map exchangeId (groups example_timeline) = [''ex-1'', ''ex-2'']
   \<and> map (\<lambda>g. length (judges g)) (groups example_timeline) = [2, 0]
   \<and> map (\<lambda>g. map_option pii_redacted_text (response g)) (groups example_timeline)
       = [Some (Some ''second answer''), Some (Some ''other exchange'')]
   \<and> first_seen (map exchange_id example_timeline) = [''ex-1'', ''ex-2'']"
  using grouper_one_exchange_per_id [of example_timeline] groups_example_timeline
  by simp

subsection \<open>The timestamp of an exchange\<close>

text \<open>
  C7, as stated, fails on an input that is not sorted by timestamp: the callback assigns
  \<open>entry.createdAt = event.created_at\<close> for every event, so the exchange ends with
  the timestamp of its last event in input order. Here the verdict of 2 ms comes before
  the response of 1 ms, and the exchange's \<open>createdAt\<close> is the 1 ms timestamp.
\<close>

theorem group_createdAt_not_max:
  "map createdAt (groups example_unsorted) = [at_ms1]
   \<and> map created_at (events_of ''ex-1'' example_unsorted) = [at_ms2, at_ms1]
   \<and> example_clock at_ms1 = Some 1 \<and> example_clock at_ms2 = Some 2
   \<and> \<not> created_le example_clock at_ms2 at_ms1"
  by (simp add: groups_def group_step_def record_event_def new_entry_def example_unsorted_def
      response_event_def verdict_event_def events_of_def created_le_def example_clock_def
      at_ms1_def at_ms2_def)

lemma sorted_wrt_last:
  "sorted_wrt R xs \<Longrightarrow> e \<in> set xs \<Longrightarrow> e = last xs \<or> R e (last xs)"
  by (induction xs rule: rev_induct) (auto simp: sorted_wrt_append)

lemma created_le_refl: "getTime a \<noteq> None \<Longrightarrow> created_le getTime a a"
  by (auto simp: created_le_def)

text \<open>
  C7 (amended). For every input event list, in any order, each exchange produced by the
  grouper has the \<open>createdAt\<close> of the last of its constituent events in input order.
  When the input is sorted by timestamp (all timestamps parsing), as the output of the
  reconciliation is, that is the maximum: no constituent event has a later timestamp.
\<close>

theorem group_createdAt_is_last:
  "(\<forall>g \<in> set (groups evs).
      events_of (exchangeId g) evs \<noteq> []
    \<and> createdAt g = created_at (last (events_of (exchangeId g) evs)))
   \<and> (all_parse getTime evs
        \<and> sorted_wrt (\<lambda>a b. created_le getTime (created_at a) (created_at b)) evs \<longrightarrow>
       (\<forall>g \<in> set (groups evs). \<forall>e \<in> set (events_of (exchangeId g) evs).
          created_le getTime (created_at e) (createdAt g)))"
proof -
  have last: "\<forall>g \<in> set (groups evs).
      events_of (exchangeId g) evs \<noteq> []
    \<and> createdAt g = created_at (last (events_of (exchangeId g) evs))"
  proof
    fix g assume "g \<in> set (groups evs)"
    then have g: "g = build_entry (events_of (exchangeId g) evs)"
      and ne: "events_of (exchangeId g) evs \<noteq> []"
      using group_is_build by blast+
    have "createdAt g = created_at (last (events_of (exchangeId g) evs))"
      by (subst g) (simp add: createdAt_build_entry ne)
    with ne show "events_of (exchangeId g) evs \<noteq> []
      \<and> createdAt g = created_at (last (events_of (exchangeId g) evs))" by simp
  qed
  have mx: "all_parse getTime evs
        \<and> sorted_wrt (\<lambda>a b. created_le getTime (created_at a) (created_at b)) evs \<longrightarrow>
       (\<forall>g \<in> set (groups evs). \<forall>e \<in> set (events_of (exchangeId g) evs).
          created_le getTime (created_at e) (createdAt g))"
  proof (intro impI ballI)
    fix g e
    assume a: "all_parse getTime evs
        \<and> sorted_wrt (\<lambda>a b. created_le getTime (created_at a) (created_at b)) evs"
      and g: "g \<in> set (groups evs)" and e: "e \<in> set (events_of (exchangeId g) evs)"
    let ?es = "events_of (exchangeId g) evs"
    have s: "sorted_wrt (\<lambda>a b. created_le getTime (created_at a) (created_at b)) ?es"
      using a unfolding events_of_def by (simp add: sorted_wrt_filter)
    have c: "createdAt g = created_at (last ?es)" using last g by blast
    have "e \<in> set evs" using e by (simp add: events_of_def)
    then have pe: "getTime (created_at e) \<noteq> None"
      using a by (simp add: all_parse_def list_all_iff)
    from sorted_wrt_last [OF s e]
    show "created_le getTime (created_at e) (createdAt g)"
      using c pe created_le_refl by auto
  qed
  from last mx show ?thesis by blast
qed

lemma example_timeline_sorted:
  "all_parse example_clock example_timeline
   \<and> sorted_wrt (\<lambda>a b. created_le example_clock (created_at a) (created_at b)) example_timeline"
  by (simp add: all_parse_def example_timeline_def response_event_def verdict_event_def
      created_le_def example_clock_def at_ms1_def at_ms2_def at_ms3_def)

theorem group_createdAt_is_last_witness:
  "all_parse example_clock example_timeline
   \<and> sorted_wrt (\<lambda>a b. created_le example_clock (created_at a) (created_at b)) example_timeline
   \<and> map createdAt (groups example_timeline) = [at_ms3, at_ms2]
   \<and> map created_at (events_of ''ex-1'' example_timeline) = [at_ms1, at_ms2, at_ms3, at_ms3]
   \<and> map created_at (events_of ''ex-2'' example_timeline) = [at_ms2]"
proof -
  have ev: "map created_at (events_of ''ex-1'' example_timeline) = [at_ms1, at_ms2, at_ms3, at_ms3]
   \<and> map created_at (events_of ''ex-2'' example_timeline) = [at_ms2]"
    by (simp add: events_of_def example_timeline_def response_event_def verdict_event_def)
  from group_createdAt_is_last [of example_timeline example_clock]
    example_timeline_sorted groups_example_timeline ev
  show ?thesis by simp
qed


section \<open>Properties of the reconciliation buffer\<close>

lemma foldl_push:
  "foldl push (seen, merged) xs = (seen \<union> event_key ` set xs, merged @ first_by_key seen xs)"
  by (induction xs arbitrary: seen merged) (auto simp: push_def)







lemma first_by_key_distinct_id:
  "distinct (map event_key xs) \<Longrightarrow> event_key ` set xs \<inter> seen = {} \<Longrightarrow> first_by_key seen xs = xs"
  by (induction xs arbitrary: seen) auto















subsection \<open>The key string and the key triple\<close>






subsection \<open>The merge\<close>





section \<open>Properties of the filter\<close>





text \<open>
  White space beyond ASCII: a category that is a no-break space (U+00A0), or a byte
  order mark (U+FEFF) and a space, is blank; a violation category is trimmed of a line
  separator (U+2028) in front and an ideographic space (U+3000) behind; a letter whose
  last byte is that of the no-break space (U+00E0) is not touched.
\<close>

lemma trim_beyond_ascii:
  "category_label (Some [CHR 0xC2, CHR 0xA0]) = ''Uncategorized''
   \<and> category_label (Some [CHR 0xEF, CHR 0xBB, CHR 0xBF, CHR 0x20]) = ''Uncategorized''
   \<and> category_label (Some '' billing'') = '' billing''
   \<and> violation_label (Some \<lparr>category = [CHR 0xE2, CHR 0x80, CHR 0xA8] @ ''pii_leak''
                                 @ [CHR 0xE3, CHR 0x80, CHR 0x80],
          severity = ''warn'', violation_type = None, clause_reference = None,
          description = None\<rparr>) = ''pii_leak''
   \<and> trim [CHR 0xC3, CHR 0xA0] = [CHR 0xC3, CHR 0xA0]"
  by (simp add: category_label_def violation_label_def trim_def trimStart_def trimEnd_def
      js_whitespace_def strip_leading.simps)









section \<open>Properties of the metrics\<close>

subsection \<open>The counts and the window\<close>

lemma count_verdicts_foldl:
  "foldl (\<lambda>(allowCount, warnCount, blockCount) event.
              if verdict (payload event) = Some ''allow'' then (allowCount + 1, warnCount, blockCount)
              else if verdict (payload event) = Some ''warn'' then (allowCount, warnCount + 1, blockCount)
              else if verdict (payload event) = Some ''block'' then (allowCount, warnCount, blockCount + 1)
              else (allowCount, warnCount, blockCount))
       (a, w, b) js
   = (a + length (filter (\<lambda>e. verdict (payload e) = Some ''allow'') js),
      w + length (filter (\<lambda>e. verdict (payload e) = Some ''warn'') js),
      b + length (filter (\<lambda>e. verdict (payload e) = Some ''block'') js))"
  by (induction js arbitrary: a w b) simp_all

lemma count_verdicts_lengths:
  "count_verdicts js
   = (length (filter (\<lambda>e. verdict (payload e) = Some ''allow'') js),
      length (filter (\<lambda>e. verdict (payload e) = Some ''warn'') js),
      length (filter (\<lambda>e. verdict (payload e) = Some ''block'') js))"
  unfolding count_verdicts_def by (simp add: count_verdicts_foldl)

lemma judgeAgreement_counts:
  "judgeAgreement window
   = agreement_string (length (verdicts_with ''allow'' window))
       (length (verdicts_with ''warn'' window)) (length (of_type judge_verdict window))"
  by (simp add: judgeAgreement_def count_verdicts_lengths verdicts_with_def of_type_def)

lemma violationCount_counts:
  "violationCount window
   = length (verdicts_with ''warn'' window) + length (verdicts_with ''block'' window)"
  by (simp add: violationCount_def count_verdicts_lengths verdicts_with_def of_type_def)

lemma percent_not_pending: "xs @ ''%'' \<noteq> ''pending''"
proof
  assume "xs @ ''%'' = ''pending''"
  then have "xs @ [CHR ''%''] = ''pendin'' @ [CHR ''g'']" by simp
  then have "CHR ''%'' = CHR ''g''" by (simp only: append1_eq_conv)
  then show False by simp
qed

lemma agreement_string_pending:
  "(agreement_string a w t = ''pending'') = (t = 0)"
  using percent_not_pending by (auto simp: agreement_string_def Let_def)

lemma activeEvents_take: "activeEvents filtered idx = take (nat (idx + 1)) filtered"
  by (auto simp: activeEvents_def Let_def min_def max_def)

lemma agreement_two_one_four: "agreement_string 2 1 4 = ''60%''"
  by code_simp

lemma agreement_five_four_twentyfour: "agreement_string 5 4 24 = ''27%''"
  by code_simp

lemma stated_five_four_twentyfour: "stated_agreement 5 4 24 = 28"
  by code_simp

lemma stated_percentage_five_four_twentyfour: "stated_percentage 5 4 24 = 55 / 2"
  by (simp add: stated_percentage_def)

lemma verdict_window_counts:
  "of_type judge_verdict (verdict_window a w b) = verdict_window a w b
   \<and> length (verdict_window a w b) = a + w + b
   \<and> length (verdicts_with ''allow'' (verdict_window a w b)) = a
   \<and> length (verdicts_with ''warn'' (verdict_window a w b)) = w
   \<and> length (verdicts_with ''block'' (verdict_window a w b)) = b"
  by (simp add: verdict_window_def verdicts_with_def of_type_def verdict_event_def o_def)

subsection \<open>Rounding to binary64\<close>

lemma pow2_powi: "pow2 e = 2 powi e"
  by (simp add: pow2_def power_int_def inverse_eq_divide power_one_over)

lemma pow2_pos: "0 < pow2 e"
  by (simp add: pow2_powi)

lemma pow2_Suc: "pow2 (e + 1) = 2 * pow2 e"
  by (simp add: pow2_powi power_int_add)

lemma pow2_mono: "a \<le> b \<Longrightarrow> pow2 a \<le> pow2 b"
  by (simp add: pow2_powi power_int_increasing)

lemma pow2_pred: "pow2 (e - 1) = pow2 e / 2"
  using pow2_Suc [of "e - 1"] by simp

lemma binade_bounds:
  "0 < x \<Longrightarrow> pow2 (- int k) \<le> x \<Longrightarrow> x < pow2 (int k + 1) \<Longrightarrow>
   pow2 (binade k x e - e) \<le> x \<and> x < pow2 (binade k x e - e + 1)"
proof (induction k arbitrary: x e)
  case 0
  then show ?case by (simp add: pow2_def)
next
  case (Suc k)
  show ?case
  proof (cases "2 \<le> x")
    case True
    have lo: "pow2 (- int k) \<le> x / 2"
    proof -
      have "pow2 (- int k) \<le> pow2 0"
        by (rule pow2_mono) simp
      also have "\<dots> \<le> x / 2" using True by (simp add: pow2_def)
      finally show ?thesis .
    qed
    have hi: "x / 2 < pow2 (int k + 1)"
      using Suc.prems(3) pow2_Suc [of "int k + 1"] by (simp add: add.commute)
    have pos: "0 < x / 2" using Suc.prems(1) by simp
    from Suc.IH [OF pos lo hi, of "e + 1"]
    have "pow2 (binade k (x / 2) (e + 1) - (e + 1)) \<le> x / 2"
      and "x / 2 < pow2 (binade k (x / 2) (e + 1) - (e + 1) + 1)" by simp_all
    then have "pow2 (binade k (x / 2) (e + 1) - e) \<le> x"
      and "x < pow2 (binade k (x / 2) (e + 1) - e + 1)"
      using pow2_Suc [of "binade k (x / 2) (e + 1) - (e + 1)"]
        pow2_Suc [of "binade k (x / 2) (e + 1) - e"]
      by (simp_all add: algebra_simps)
    then show ?thesis using True by simp
  next
    case False
    show ?thesis
    proof (cases "x < 1")
      case True
      have lo: "pow2 (- int k) \<le> x * 2"
        using Suc.prems(2) pow2_Suc [of "- int (Suc k)"] by (simp add: algebra_simps)
      have hi: "x * 2 < pow2 (int k + 1)"
      proof -
        have "x * 2 < pow2 1" using True by (simp add: pow2_def)
        also have "\<dots> \<le> pow2 (int k + 1)"
          by (rule pow2_mono) simp
        finally show ?thesis .
      qed
      have pos: "0 < x * 2" using Suc.prems(1) by simp
      from Suc.IH [OF pos lo hi, of "e - 1"]
      have "pow2 (binade k (x * 2) (e - 1) - (e - 1)) \<le> x * 2"
        and "x * 2 < pow2 (binade k (x * 2) (e - 1) - (e - 1) + 1)" by simp_all
      then have "pow2 (binade k (x * 2) (e - 1) - e) \<le> x"
        and "x < pow2 (binade k (x * 2) (e - 1) - e + 1)"
        using pow2_Suc [of "binade k (x * 2) (e - 1) - e"]
          pow2_Suc [of "binade k (x * 2) (e - 1) - e + 1"]
        by (simp_all add: algebra_simps)
      then show ?thesis using True False by simp
    next
      case ge: False
      then show ?thesis using False by (simp add: pow2_def)
    qed
  qed
qed

lemma round_half_even_error: "\<bar>of_int (round_half_even q) - q\<bar> \<le> 1 / 2"
proof -
  have "of_int \<lfloor>q\<rfloor> \<le> q" "q < of_int \<lfloor>q\<rfloor> + 1" by linarith+
  then show ?thesis by (auto simp: round_half_even_def Let_def)
qed

lemma to_double_zero: "to_double 0 = 0"
  by (simp add: to_double_def)

lemma to_double_error:
  assumes "pow2 (- 1100) \<le> x" "x < pow2 1101"
  shows "\<bar>to_double x - x\<bar> \<le> x * unit_roundoff"
proof -
  have pos: "0 < x" using assms(1) pow2_pos [of "- 1100"] by linarith
  define e where "e = binade 1100 x 0"
  have "pow2 (- int 1100) \<le> x" "x < pow2 (int 1100 + 1)" using assms by simp_all
  from binade_bounds [OF pos this, of 0]
  have lo: "pow2 e \<le> x" and hi: "x < pow2 (e + 1)" by (simp_all add: e_def)
  define ulp where "ulp = pow2 (e - 52)"
  have ulp_pos: "0 < ulp" by (simp add: ulp_def pow2_pos)
  define n where "n = round_half_even (x / ulp)"
  have td: "to_double x = of_int n * ulp"
    using pos by (simp add: to_double_def Let_def e_def ulp_def n_def)
  have "\<bar>of_int n * ulp - x\<bar> = ulp * \<bar>of_int n - x / ulp\<bar>"
  proof -
    have "of_int n * ulp - x = ulp * (of_int n - x / ulp)"
      using ulp_pos by (simp add: field_simps)
    then show ?thesis using ulp_pos by (simp add: abs_mult)
  qed
  also have "\<dots> \<le> ulp * (1 / 2)"
    using round_half_even_error [of "x / ulp"] ulp_pos
    by (intro mult_left_mono) (simp_all add: n_def)
  also have "\<dots> = pow2 e * unit_roundoff"
  proof -
    have "pow2 (e - 52) = pow2 e / 2 ^ 52"
      by (simp add: pow2_powi power_int_diff)
    then show ?thesis by (simp add: ulp_def unit_roundoff_def)
  qed
  also have "\<dots> \<le> x * unit_roundoff"
    using lo by (intro mult_right_mono) (simp_all add: unit_roundoff_def)
  finally show ?thesis by (simp add: td)
qed

lemma to_double_approx:
  assumes "approx eps x y" "0 \<le> eps" "eps \<le> 1 / 2"
    and "x = 0 \<or> (1 / 2 ^ 50 \<le> x \<and> x \<le> 2 ^ 50)"
  shows "approx (eps + 2 * unit_roundoff) x (to_double y)"
proof (cases "x = 0")
  case True
  then have "y = 0" using assms(1) by (simp add: approx_def)
  then show ?thesis using True by (simp add: approx_def to_double_zero)
next
  case False
  define lo_b :: rat where "lo_b = 1 / 2 ^ 50"
  define hi_b :: rat where "hi_b = 2 ^ 50"
  from False have lo: "lo_b \<le> x" and hi: "x \<le> hi_b"
    using assms(4) by (simp_all add: lo_b_def hi_b_def)
  have lpos: "0 < lo_b" by (simp add: lo_b_def)
  have xpos: "0 < x" using lo lpos by linarith
  have yx: "\<bar>y - x\<bar> \<le> eps * x" using assms(1) by (simp add: approx_def)
  have ex: "eps * x \<le> x / 2"
    using assms(3) xpos by (simp add: field_simps)
  have ylo: "x / 2 \<le> y" and yhi: "y \<le> 3 * x / 2" using yx ex by linarith+
  have p1: "pow2 (- 1100) \<le> pow2 (- 51)" by (rule pow2_mono) simp
  have p2: "pow2 (- 51) = lo_b / 2" by (simp add: pow2_def lo_b_def)
  have p3: "pow2 52 \<le> pow2 1101" by (rule pow2_mono) simp
  have p4: "pow2 52 = 4 * hi_b" by (simp add: pow2_def hi_b_def)
  have r1: "pow2 (- 1100) \<le> y" using p1 p2 lo ylo by linarith
  have r2: "y < pow2 1101" using p3 p4 hi yhi xpos by linarith
  have "\<bar>to_double y - y\<bar> \<le> y * unit_roundoff" using r1 r2 by (rule to_double_error)
  also have "\<dots> \<le> (3 * x / 2) * unit_roundoff"
    using yhi by (intro mult_right_mono) (simp_all add: unit_roundoff_def)
  also have "\<dots> \<le> 2 * unit_roundoff * x"
    using xpos by (simp add: unit_roundoff_def field_simps)
  finally have "\<bar>to_double y - y\<bar> \<le> 2 * unit_roundoff * x" .
  then have "\<bar>to_double y - x\<bar> \<le> (eps + 2 * unit_roundoff) * x"
    using yx by (simp add: algebra_simps)
  then show ?thesis using xpos by (simp add: approx_def)
qed

lemma approx_mult: "approx eps x y \<Longrightarrow> 0 \<le> k \<Longrightarrow> approx eps (x * k) (y * k)"
proof -
  assume a: "approx eps x y" and k: "0 \<le> k"
  have "\<bar>y * k - x * k\<bar> = \<bar>y - x\<bar> * k"
    using k by (simp add: abs_mult flip: left_diff_distrib)
  also have "\<dots> \<le> (eps * x) * k"
    using a k by (intro mult_right_mono) (simp_all add: approx_def)
  finally show ?thesis using a k by (simp add: approx_def algebra_simps)
qed

lemma approx_add: "approx eps x y \<Longrightarrow> 0 \<le> eps \<Longrightarrow> 0 \<le> c \<Longrightarrow> approx eps (c + x) (c + y)"
proof -
  assume a: "approx eps x y" and e: "0 \<le> eps" and c: "0 \<le> c"
  have "eps * x \<le> eps * (c + x)" using e c by (intro mult_left_mono) simp_all
  then show ?thesis using a c by (simp add: approx_def)
qed

lemma approx_divide: "approx eps x y \<Longrightarrow> 0 < d \<Longrightarrow> approx eps (x / d) (y / d)"
  using approx_mult [of eps x y "1 / d"] by simp

lemma approx_weaken: "approx eps x y \<Longrightarrow> eps \<le> eps' \<Longrightarrow> approx eps' x y"
proof -
  assume a: "approx eps x y" and e: "eps \<le> eps'"
  have "eps * x \<le> eps' * x" using a e by (intro mult_right_mono) (simp_all add: approx_def)
  then show ?thesis using a by (simp add: approx_def)
qed

lemma unit_roundoff_small: "0 < unit_roundoff" "10 * unit_roundoff \<le> 1 / 2"
  by (simp_all add: unit_roundoff_def)

lemma agreement_value_close:
  fixes a w t :: nat
  assumes t: "0 < t" "t \<le> 2 ^ 32" and le: "a + w \<le> t"
  shows "approx (10 * unit_roundoff) (100 * (of_nat a + 2 / 5 * of_nat w) / of_nat t)
           (js_times (js_divide (js_plus (of_nat a) (js_times (of_nat w) (to_double (2 / 5))))
              (of_nat t)) 100)"
proof -
  define A :: rat where "A = of_nat a"
  define W :: rat where "W = of_nat w"
  define T :: rat where "T = of_nat t"
  define u where "u = unit_roundoff"
  have u: "0 < u" "10 * u \<le> 1 / 2" using unit_roundoff_small by (simp_all add: u_def)
  have A0: "0 \<le> A" and W0: "0 \<le> W" by (simp_all add: A_def W_def)
  have A1: "A = 0 \<or> 1 \<le> A" by (cases a) (simp_all add: A_def)
  have W1: "W = 0 \<or> 1 \<le> W" by (cases w) (simp_all add: W_def)
  have T1: "1 \<le> T" using t(1) by (simp add: T_def)
  have "T \<le> of_nat (2 ^ 32)" unfolding T_def using t(2) by (rule of_nat_mono)
  then have T2: "T \<le> 4294967296" by simp
  have "of_nat (a + w) \<le> (of_nat t :: rat)" using le by (rule of_nat_mono)
  then have AWT: "A + W \<le> T" by (simp add: A_def W_def T_def)
  define c where "c = to_double (2 / 5)"
  define p where "p = js_times W c"
  define s where "s = js_plus A p"
  define q where "q = js_divide s T"
  define r where "r = js_times q 100"
  define x where "x = A + 2 / 5 * W"
  have x0: "x = 0 \<or> 2 / 5 \<le> x" using A0 W0 A1 W1 by (auto simp: x_def)
  have xT: "x \<le> T" using AWT W0 by (simp add: x_def)
  have s0: "approx 0 (2 / 5) (2 / 5)" by (simp add: approx_def)
  have s1: "approx (2 * u) (2 / 5) c"
    unfolding c_def u_def using to_double_approx [OF s0] by simp
  have s2: "approx (2 * u) (2 / 5 * W) (W * c)"
    using approx_mult [OF s1 W0] by (simp add: mult.commute)
  have rg3: "2 / 5 * W = 0 \<or> (1 / 2 ^ 50 \<le> 2 / 5 * W \<and> 2 / 5 * W \<le> 2 ^ 50)"
    using W1 AWT A0 T2 by auto
  have s3: "approx (4 * u) (2 / 5 * W) p"
    unfolding p_def js_times_def
    using to_double_approx [OF s2 _ _ rg3] u approx_weaken by (simp add: u_def)
  have s4: "approx (4 * u) x (A + p)"
    unfolding x_def using approx_add [OF s3 _ A0] u by simp
  have rg5: "x = 0 \<or> (1 / 2 ^ 50 \<le> x \<and> x \<le> 2 ^ 50)"
    using x0 xT T2 by auto
  have s5: "approx (6 * u) x s"
    unfolding s_def js_plus_def
    using to_double_approx [OF s4 _ _ rg5] u by (simp add: u_def)
  have s6: "approx (6 * u) (x / T) (s / T)"
    using approx_divide [OF s5] T1 by simp
  have xT1: "x / T \<le> 1" using xT T1 by simp
  have xT0: "x = 0 \<or> 2 / 5 / 4294967296 \<le> x / T"
  proof (cases "x = 0")
    case True then show ?thesis by simp
  next
    case False
    then have "2 / 5 \<le> x" using x0 by simp
    then have "2 / 5 / 4294967296 \<le> x / T"
      using T1 T2 by (intro frac_le) simp_all
    then show ?thesis by simp
  qed
  have rg7: "x / T = 0 \<or> (1 / 2 ^ 50 \<le> x / T \<and> x / T \<le> 2 ^ 50)"
    using xT0 xT1 by auto
  have s7: "approx (8 * u) (x / T) q"
    unfolding q_def js_divide_def
    using to_double_approx [OF s6 _ _ rg7] u by (simp add: u_def)
  have s8: "approx (8 * u) (x / T * 100) (q * 100)"
    using approx_mult [OF s7] by simp
  define z where "z = x / T"
  have z1: "z \<le> 1" using xT1 by (simp add: z_def)
  have z0: "z = 0 \<or> 2 / 5 / 4294967296 \<le> z" using xT0 by (auto simp: z_def)
  have "z * 100 = 0 \<or> (1 / 2 ^ 50 \<le> z * 100 \<and> z * 100 \<le> 2 ^ 50)"
    using z0 z1 by auto
  then have rg9: "x / T * 100 = 0 \<or> (1 / 2 ^ 50 \<le> x / T * 100 \<and> x / T * 100 \<le> 2 ^ 50)"
    unfolding z_def .
  have s9: "approx (10 * u) (x / T * 100) r"
    unfolding r_def js_times_def
    using to_double_approx [OF s8 _ _ rg9] u by (simp add: u_def)
  have eq: "x / T * 100 = 100 * (of_nat a + 2 / 5 * of_nat w) / of_nat t"
    unfolding x_def A_def W_def T_def by (simp only: times_divide_eq_left times_divide_eq_right mult.commute)
  have "approx (10 * u) (x / T * 100) r" by (rule s9)
  then have "approx (10 * u) (100 * (of_nat a + 2 / 5 * of_nat w) / of_nat t) r"
    by (simp only: eq)
  then show ?thesis
    unfolding r_def q_def s_def p_def c_def u_def A_def W_def T_def .
qed

lemma gap_lower_bound:
  fixes d T B :: rat
  assumes "0 < T" "T \<le> B" "1 \<le> d * (2 * T)"
  shows "1 / (2 * B) \<le> d"
proof -
  have "1 / (2 * T) \<le> d" using assms(1,3) by (simp add: field_simps)
  moreover have "1 / (2 * B) \<le> 1 / (2 * T)"
    using assms(1,2) by (intro divide_left_mono) simp_all
  ultimately show ?thesis by linarith
qed

lemma frac_half_iff: "(frac (v :: rat) = 1 / 2) = (v = of_int \<lfloor>v + 1 / 2\<rfloor> - 1 / 2)"
proof
  assume "frac v = 1 / 2"
  then have v: "v = of_int \<lfloor>v\<rfloor> + 1 / 2" by (simp add: frac_def algebra_simps)
  then have "v + 1 / 2 = of_int (\<lfloor>v\<rfloor> + 1)" by simp
  then have "\<lfloor>v + 1 / 2\<rfloor> = \<lfloor>v\<rfloor> + 1" by (metis floor_of_int)
  then show "v = of_int \<lfloor>v + 1 / 2\<rfloor> - 1 / 2" using v by simp
next
  assume a: "v = of_int \<lfloor>v + 1 / 2\<rfloor> - 1 / 2"
  define k where "k = \<lfloor>v + 1 / 2\<rfloor>"
  have v: "v = of_int (k - 1) + 1 / 2" using a by (simp add: k_def)
  have "\<lfloor>v\<rfloor> = k - 1" unfolding v by (rule floor_unique) simp_all
  then show "frac v = 1 / 2" using v by (simp add: frac_def)
qed

lemma round_near:
  fixes n t :: nat and r :: rat
  assumes t: "0 < t" "t \<le> 2 ^ 32"
    and close: "\<bar>r - of_nat n / of_nat t\<bar> \<le> 1000 * unit_roundoff"
  shows "(frac (of_nat n / of_nat t :: rat) \<noteq> 1 / 2 \<longrightarrow>
            Math_round r = \<lfloor>of_nat n / of_nat t + 1 / 2 :: rat\<rfloor>)
       \<and> (frac (of_nat n / of_nat t :: rat) = 1 / 2 \<longrightarrow>
            Math_round r = \<lfloor>of_nat n / of_nat t + 1 / 2 :: rat\<rfloor>
          \<or> Math_round r = \<lfloor>of_nat n / of_nat t + 1 / 2 :: rat\<rfloor> - 1)"
proof -
  define T :: rat where "T = of_nat t"
  define v :: rat where "v = of_nat n / T"
  define k where "k = \<lfloor>v + 1 / 2\<rfloor>"
  define eps :: rat where "eps = 1000 * unit_roundoff"
  define gap :: rat where "gap = 1 / (2 * 4294967296)"
  have T0: "0 < T" using t(1) by (simp add: T_def)
  have "T \<le> of_nat (2 ^ 32)" unfolding T_def using t(2) by (rule of_nat_mono)
  then have T2: "T \<le> 4294967296" by simp
  have eg: "eps < gap" "0 \<le> eps" "gap < 1 / 2"
    by (simp_all add: eps_def gap_def unit_roundoff_def)
  have cl: "\<bar>r - v\<bar> \<le> eps" using close by (simp add: v_def T_def eps_def)
  have k1: "of_int k \<le> v + 1 / 2" and k2: "v + 1 / 2 < of_int k + 1"
    unfolding k_def by linarith+
  have Tv: "T * v = of_nat n" using T0 by (simp add: v_def)
  define m1 where "m1 = 2 * int n - (2 * k - 1) * int t"
  define m2 where "m2 = (2 * k + 1) * int t - 2 * int n"
  have e1: "(of_int m1 :: rat) = (v - (of_int k - 1 / 2)) * (2 * T)"
    using Tv by (simp add: m1_def T_def algebra_simps)
  have e2: "(of_int m2 :: rat) = ((of_int k + 1 / 2) - v) * (2 * T)"
    using Tv by (simp add: m2_def T_def algebra_simps)
  have "0 < ((of_int k + 1 / 2) - v) * (2 * T)" using k2 T0 by simp
  then have "0 < (of_int m2 :: rat)" by (simp only: e2)
  then have "1 \<le> m2" by simp
  then have "(1 :: rat) \<le> of_int m2" by (metis of_int_1_le_iff)
  then have g2: "gap \<le> (of_int k + 1 / 2) - v"
    unfolding gap_def e2 using T0 T2 by (intro gap_lower_bound [of T]) simp_all
  have up: "r + 1 / 2 < of_int k + 1" using g2 cl eg by linarith
  have nonhalf: "frac v \<noteq> 1 / 2 \<longrightarrow> Math_round r = k"
  proof
    assume nh: "frac v \<noteq> 1 / 2"
    have "v \<noteq> of_int k - 1 / 2" using nh unfolding k_def by (simp only: frac_half_iff not_False_eq_True)
    then have "0 < (v - (of_int k - 1 / 2)) * (2 * T)" using k1 T0 by simp
    then have "0 < (of_int m1 :: rat)" by (simp only: e1)
    then have "1 \<le> m1" by simp
    then have "(1 :: rat) \<le> of_int m1" by (metis of_int_1_le_iff)
    then have g1: "gap \<le> v - (of_int k - 1 / 2)"
      unfolding gap_def e1 using T0 T2 by (intro gap_lower_bound [of T]) simp_all
    have "of_int k \<le> r + 1 / 2" using g1 cl eg by linarith
    then show "Math_round r = k"
      unfolding Math_round_def using up by (intro floor_unique) simp_all
  qed
  have half: "frac v = 1 / 2 \<longrightarrow> Math_round r = k \<or> Math_round r = k - 1"
  proof
    assume "frac v = 1 / 2"
    then have v: "v = of_int k - 1 / 2" unfolding k_def by (simp only: frac_half_iff)
    show "Math_round r = k \<or> Math_round r = k - 1"
    proof (cases "of_int k \<le> r + 1 / 2")
      case True
      then have "Math_round r = k"
        unfolding Math_round_def using up by (intro floor_unique) simp_all
      then show ?thesis by simp
    next
      case False
      have "of_int (k - 1) \<le> r + 1 / 2" using v cl eg by simp
      moreover have "r + 1 / 2 < of_int (k - 1) + 1" using False by simp
      ultimately have "Math_round r = k - 1"
        unfolding Math_round_def by (rule floor_unique)
      then show ?thesis by simp
    qed
  qed
  from nonhalf half show ?thesis unfolding k_def v_def T_def by blast
qed

lemma agreement_matches_stated:
  fixes a w t :: nat
  assumes t: "0 < t" "t \<le> 2 ^ 32" and le: "a + w \<le> t"
  shows "(\<not> half_way (stated_percentage a w t) \<longrightarrow>
            agreement_string a w t = number_string (stated_agreement a w t) @ ''%'')
       \<and> (half_way (stated_percentage a w t) \<longrightarrow>
            agreement_string a w t = number_string (stated_agreement a w t) @ ''%''
          \<or> agreement_string a w t = number_string (stated_agreement a w t - 1) @ ''%'')"
proof -
  define r where "r = js_times (js_divide (js_plus (of_nat a) (js_times (of_nat w) (to_double (2 / 5))))
              (of_nat t)) 100"
  define v :: rat where "v = of_nat (100 * a + 40 * w) / of_nat t"
  have sv: "stated_percentage a w t = v"
    by (simp add: stated_percentage_def v_def algebra_simps)
  have ap: "approx (10 * unit_roundoff) v r"
    using agreement_value_close [OF t le] by (simp add: r_def sv [symmetric] stated_percentage_def)
  have T0: "(0 :: rat) < of_nat t" using t(1) by simp
  have "of_nat (100 * a + 40 * w) \<le> (of_nat (100 * t) :: rat)"
    using le by (intro of_nat_mono) simp
  then have "v \<le> 100" using T0 by (simp add: v_def field_simps)
  moreover have "0 \<le> v" by (simp add: v_def)
  moreover have "\<bar>r - v\<bar> \<le> 10 * unit_roundoff * v" using ap by (simp add: approx_def)
  moreover have "10 * unit_roundoff * v \<le> 10 * unit_roundoff * 100"
    using \<open>v \<le> 100\<close> by (intro mult_left_mono) (simp_all add: unit_roundoff_def)
  ultimately have cl: "\<bar>r - of_nat (100 * a + 40 * w) / of_nat t\<bar> \<le> 1000 * unit_roundoff"
    by (simp add: v_def)
  have ag: "agreement_string a w t = number_string (Math_round r) @ ''%''"
    using t(1) by (simp add: agreement_string_def Let_def r_def)
  from round_near [OF t cl]
  show ?thesis
    unfolding ag half_way_def stated_agreement_def sv v_def by auto
qed

lemma disjoint_filters_length:
  "(\<And>x. \<not> (P x \<and> Q x)) \<Longrightarrow> length (filter P xs) + length (filter Q xs) \<le> length xs"
  by (induction xs) auto

lemma verdict_counts_le:
  "length (verdicts_with ''allow'' window) + length (verdicts_with ''warn'' window)
   \<le> length (of_type judge_verdict window)"
  unfolding verdicts_with_def by (rule disjoint_filters_length) simp

lemma window_length_le: "length (of_type judge_verdict (activeEvents filtered idx)) \<le> length filtered"
proof -
  have "length (of_type judge_verdict (activeEvents filtered idx)) \<le> length (activeEvents filtered idx)"
    by (simp add: of_type_def)
  also have "\<dots> \<le> length filtered" by (simp add: activeEvents_take)
  finally show ?thesis .
qed


subsection \<open>Judge agreement and violations flagged\<close>

text \<open>
  C5, as stated, fails where the exact percentage lies half-way between two integers
  and the binary64 evaluation falls just below it. A window with 5 \<open>allow\<close>, 4 \<open>warn\<close>
  and 15 \<open>block\<close> verdicts has \<open>100 \<times> (5 + 0.4 \<times> 4) / 24 = 27.5\<close>, which rounds to 28;
  the code computes \<open>((5 + 4 * 0.4) / 24) * 100 = 27.499999999999996\<close> and shows
  \<open>27%\<close>.
\<close>

theorem agreement_rounds_below_half:
  "length (verdicts_with ''allow'' (verdict_window 5 4 15)) = 5
   \<and> length (verdicts_with ''warn'' (verdict_window 5 4 15)) = 4
   \<and> length (of_type judge_verdict (verdict_window 5 4 15)) = 24
   \<and> judgeAgreement (activeEvents (verdict_window 5 4 15) 23) = ''27%''
   \<and> stated_percentage 5 4 24 = 55 / 2
   \<and> stated_agreement 5 4 24 = 28"
proof -
  have w: "activeEvents (verdict_window 5 4 15) 23 = verdict_window 5 4 15"
    using verdict_window_counts [of 5 4 15] by (simp add: activeEvents_take)
  have "judgeAgreement (verdict_window 5 4 15) = agreement_string 5 4 24"
    using verdict_window_counts [of 5 4 15] by (simp add: judgeAgreement_counts)
  then have "judgeAgreement (activeEvents (verdict_window 5 4 15) 23) = ''27%''"
    by (simp only: w agreement_five_four_twentyfour)
  then show ?thesis
    using verdict_window_counts [of 5 4 15] stated_five_four_twentyfour
      stated_percentage_five_four_twentyfour by simp
qed

text \<open>
  C5 (amended). For the event window up to the current playback index (an array, so of
  fewer than \<open>2^32\<close> events): the judge-agreement metric is \<open>pending\<close> exactly when the
  window contains no verdict event. Otherwise it is \<open>Math.round\<close> of the binary64 value
  of \<open>((allowCount + warnCount * 0.4) / totalVerdictCount) * 100\<close>, followed by \<open>%\<close>;
  this is \<open>round(100 \<times> (allowCount + 0.4 \<times> warnCount) / totalVerdictCount)\<close> whenever
  that exact value is not half-way between two integers, and when it is half-way it is
  that rounded value or the integer below it. The three counts are the numbers of
  verdict events of the window whose verdict is \<open>allow\<close>, \<open>warn\<close> and \<open>block\<close>. The
  violations-flagged metric is the number of \<open>warn\<close> plus \<open>block\<close> verdicts in the
  window. A window whose verdicts are two \<open>allow\<close>, one \<open>warn\<close> and one \<open>block\<close>
  yields \<open>60%\<close> and 2.
\<close>

theorem metrics_of_window:
  assumes "length filtered < 2 ^ 32"
  shows "let window = activeEvents filtered idx;
       allowCount = length (verdicts_with ''allow'' window);
       warnCount = length (verdicts_with ''warn'' window);
       blockCount = length (verdicts_with ''block'' window);
       totalVerdictCount = length (of_type judge_verdict window)
   in window = take (nat (idx + 1)) filtered
    \<and> (judgeAgreement window = ''pending'' \<longleftrightarrow> totalVerdictCount = 0)
    \<and> (0 < totalVerdictCount \<longrightarrow>
         judgeAgreement window
           = number_string (Math_round (js_times (js_divide
               (js_plus (of_nat allowCount) (js_times (of_nat warnCount) (to_double (2 / 5))))
               (of_nat totalVerdictCount)) 100)) @ ''%'')
    \<and> (0 < totalVerdictCount
         \<and> \<not> half_way (stated_percentage allowCount warnCount totalVerdictCount) \<longrightarrow>
         judgeAgreement window
           = number_string (stated_agreement allowCount warnCount totalVerdictCount) @ ''%'')
    \<and> (0 < totalVerdictCount
         \<and> half_way (stated_percentage allowCount warnCount totalVerdictCount) \<longrightarrow>
         judgeAgreement window
           = number_string (stated_agreement allowCount warnCount totalVerdictCount) @ ''%''
       \<or> judgeAgreement window
           = number_string (stated_agreement allowCount warnCount totalVerdictCount - 1) @ ''%'')
    \<and> violationCount window = warnCount + blockCount
    \<and> (allowCount = 2 \<and> warnCount = 1 \<and> blockCount = 1 \<and> totalVerdictCount = 4 \<longrightarrow>
         judgeAgreement window = ''60%'' \<and> violationCount window = 2)"
proof -
  let ?window = "activeEvents filtered idx"
  let ?a = "length (verdicts_with ''allow'' ?window)"
  let ?w = "length (verdicts_with ''warn'' ?window)"
  let ?b = "length (verdicts_with ''block'' ?window)"
  let ?t = "length (of_type judge_verdict ?window)"
  have a: "?window = take (nat (idx + 1)) filtered" by (rule activeEvents_take)
  have b: "(judgeAgreement ?window = ''pending'') = (?t = 0)"
    by (simp only: judgeAgreement_counts agreement_string_pending)
  have c: "0 < ?t \<longrightarrow>
         judgeAgreement ?window
           = number_string (Math_round (js_times (js_divide
               (js_plus (of_nat ?a) (js_times (of_nat ?w) (to_double (2 / 5))))
               (of_nat ?t)) 100)) @ ''%''"
    by (simp add: judgeAgreement_counts agreement_string_def Let_def)
  have bound: "?t \<le> 2 ^ 32"
    using window_length_le [of filtered idx] assms by linarith
  have ja: "judgeAgreement ?window = agreement_string ?a ?w ?t"
    by (rule judgeAgreement_counts)
  have st1: "0 < ?t \<and> \<not> half_way (stated_percentage ?a ?w ?t) \<longrightarrow>
         judgeAgreement ?window = number_string (stated_agreement ?a ?w ?t) @ ''%''"
  proof
    assume h: "0 < ?t \<and> \<not> half_way (stated_percentage ?a ?w ?t)"
    then have pos: "0 < ?t" by simp
    from agreement_matches_stated [OF pos bound verdict_counts_le] h
    show "judgeAgreement ?window = number_string (stated_agreement ?a ?w ?t) @ ''%''"
      unfolding ja by blast
  qed
  have st2: "0 < ?t \<and> half_way (stated_percentage ?a ?w ?t) \<longrightarrow>
         judgeAgreement ?window = number_string (stated_agreement ?a ?w ?t) @ ''%''
       \<or> judgeAgreement ?window = number_string (stated_agreement ?a ?w ?t - 1) @ ''%''"
  proof
    assume h: "0 < ?t \<and> half_way (stated_percentage ?a ?w ?t)"
    then have pos: "0 < ?t" by simp
    from agreement_matches_stated [OF pos bound verdict_counts_le] h
    show "judgeAgreement ?window = number_string (stated_agreement ?a ?w ?t) @ ''%''
       \<or> judgeAgreement ?window = number_string (stated_agreement ?a ?w ?t - 1) @ ''%''"
      unfolding ja by blast
  qed
  have d: "violationCount ?window = ?w + ?b"
    by (rule violationCount_counts)
  have e: "?a = 2 \<and> ?w = 1 \<and> ?b = 1 \<and> ?t = 4
      \<longrightarrow> judgeAgreement ?window = ''60%'' \<and> violationCount ?window = 2"
  proof
    assume h: "?a = 2 \<and> ?w = 1 \<and> ?b = 1 \<and> ?t = 4"
    have "judgeAgreement ?window = agreement_string 2 1 4"
      using h by (simp only: judgeAgreement_counts)
    then have "judgeAgreement ?window = ''60%''" by (simp only: agreement_two_one_four)
    moreover have "violationCount ?window = 2" using h by (simp add: d)
    ultimately show "judgeAgreement ?window = ''60%'' \<and> violationCount ?window = 2" by simp
  qed
  from a b c st1 st2 d e show ?thesis unfolding Let_def by blast
qed

theorem metrics_of_window_witness:
  "length (verdict_window 2 1 1) < 2 ^ 32
   \<and> judgeAgreement (activeEvents (verdict_window 2 1 1) 3) = ''60%''
   \<and> violationCount (activeEvents (verdict_window 2 1 1) 3) = 2
   \<and> judgeAgreement (activeEvents (verdict_window 2 1 1) (- 1)) = ''pending''
   \<and> length (of_type judge_verdict (activeEvents (verdict_window 2 1 1) 3)) = 4"
proof -
  let ?w = "activeEvents (verdict_window 2 1 1) 3"
  have l: "length (verdict_window 2 1 1) < 2 ^ 32"
    using verdict_window_counts [of 2 1 1] by simp
  have w: "?w = verdict_window 2 1 1"
    using verdict_window_counts [of 2 1 1] by (simp add: activeEvents_take)
  have c: "length (verdicts_with ''allow'' ?w) = 2 \<and> length (verdicts_with ''warn'' ?w) = 1
      \<and> length (verdicts_with ''block'' ?w) = 1 \<and> length (of_type judge_verdict ?w) = 4"
    unfolding w using verdict_window_counts [of 2 1 1] by simp
  have m: "length (verdicts_with ''allow'' ?w) = 2 \<and> length (verdicts_with ''warn'' ?w) = 1
      \<and> length (verdicts_with ''block'' ?w) = 1 \<and> length (of_type judge_verdict ?w) = 4
      \<longrightarrow> judgeAgreement ?w = ''60%'' \<and> violationCount ?w = 2"
    using metrics_of_window [OF l, of 3] unfolding Let_def by blast
  have n: "activeEvents (verdict_window 2 1 1) (- 1) = []"
    by (simp add: activeEvents_take)
  have p: "judgeAgreement (activeEvents (verdict_window 2 1 1) (- 1)) = ''pending''"
    unfolding n by (simp add: judgeAgreement_counts agreement_string_pending of_type_def)
  from l m c p show ?thesis by blast
qed

section \<open>Properties of the reveal gate\<close>

lemma reveal_unavailable:
  "handleRevealResponse None allowReveal g (ui, issued)
   = (set_reveal_error (exchangeId g) ''Reveal logging unavailable.'' ui, issued)"
  by (simp add: handleRevealResponse_def)

lemma reveal_disabled:
  "\<not> allowReveal \<Longrightarrow> handleRevealResponse (Some f) allowReveal g (ui, issued)
   = (set_reveal_error (exchangeId g) ''Reveals disabled in demo mode.'' ui, issued)"
  by (simp add: handleRevealResponse_def)

lemma reveal_not_ready:
  "allowReveal \<Longrightarrow> \<not> hasRawResponse g \<Longrightarrow>
   handleRevealResponse (Some f) allowReveal g (ui, issued)
   = (set_reveal_error (exchangeId g)
        (if response g = None then ''Model response not available yet.''
         else ''Full response not available.'') ui, issued)"
  by (simp add: handleRevealResponse_def hasRawResponse_def split: option.splits)

lemma reveal_calls:
  "allowReveal \<Longrightarrow> hasRawResponse g \<Longrightarrow>
   snd (handleRevealResponse (Some f) allowReveal g (ui, issued))
   = snd (f (exchangeId g) reveal_llm_response issued)"
  by (auto simp: handleRevealResponse_def hasRawResponse_def Let_def
      split: option.splits prod.splits sum.splits)

lemma set_reveal_error_frame:
  "revealedMap (set_reveal_error i msg ui) = revealedMap ui
   \<and> pendingReveal (set_reveal_error i msg ui) = pendingReveal ui
   \<and> revealErrors (set_reveal_error i msg ui) i = Some (Some msg)
   \<and> isResponseRevealed (set_reveal_error i msg ui) j = isResponseRevealed ui j"
  by (simp add: set_reveal_error_def isResponseRevealed_def)

lemma handleRevealRequest_issued:
  "snd (handleRevealRequest selectedRunId usingDemoData backend i fld issued)
   = (case truthy_string selectedRunId of
        Some runId \<Rightarrow> if usingDemoData then issued
                        else issued @ [\<lparr>call_run_id = runId, call_exchange_id = i, call_field = fld,
                                         call_reason = None\<rparr>]
      | None \<Rightarrow> issued)"
  by (simp add: handleRevealRequest_def recordReveal_def split: option.splits)

lemma handleRevealResponse_run:
  "handleRevealResponse onReveal allowReveal (g\<lparr>group_run := r\<rparr>) st
   = handleRevealResponse onReveal allowReveal g st"
  by (cases st)
     (auto simp: handleRevealResponse_def Let_def split: option.splits prod.splits sum.splits)

lemma app_allowReveal_iff:
  "app_allowReveal selectedRunId usingDemoData
   = (\<not> usingDemoData \<and> selectedRunId \<noteq> None \<and> selectedRunId \<noteq> Some [])"
  by (auto simp: app_allowReveal_def truthy_string_def split: option.splits)

text \<open>
  C8, as stated, fails for a run that is not live. \<open>App\<close> allows reveals with
  \<open>allowReveal={!usingDemoData && Boolean(selectedRunId)}\<close>; the tag \<open>ui_live\<close> is read
  for the layout only. Here the selected run \<open>run-7\<close> is a recorded run, tagged
  \<open>ui_live = false\<close>, and its timeline has been fetched, so the demo data set is not in
  use: the reveal of the raw response of its exchange \<open>ex-1\<close> is posted to the backend,
  the response is disclosed and no error is set.
\<close>

theorem reveal_on_recorded_run_is_audited:
  "\<not> isLiveRun recorded_run
   \<and> run_id recorded_run = ''run-7''
   \<and> group_run (example_group (Some ''raw text'')) = recorded_run
   \<and> \<not> usingDemoData_of True False False (Some ''run-7'')
   \<and> app_allowReveal (Some ''run-7'') False
   \<and> snd (app_reveal (Some ''run-7'') False recording_backend (example_group (Some ''raw text''))
         (initial_reveal_state, []))
       = [\<lparr>call_run_id = ''run-7'', call_exchange_id = ''ex-1'', call_field = reveal_llm_response,
           call_reason = None\<rparr>]
   \<and> isResponseRevealed (fst (app_reveal (Some ''run-7'') False recording_backend
         (example_group (Some ''raw text'')) (initial_reveal_state, []))) ''ex-1''
   \<and> reveal_error (app_reveal (Some ''run-7'') False recording_backend
         (example_group (Some ''raw text'')) (initial_reveal_state, [])) ''ex-1'' = None"
  by (simp add: isLiveRun_def recorded_run_def nullish_def app_reveal_def app_allowReveal_def
      usingDemoData_of_def handleRevealResponse_def handleRevealRequest_def recordReveal_def recording_backend_def
      reveal_error_def isResponseRevealed_def example_group_def initial_reveal_state_def
      truthy_string_def empty_payload_def)

text \<open>
  C8 (amended). A reveal request is rejected locally, with no audit call issued and the
  disclosed flag (like the pending flag) left as it was: with the error
  \<open>Reveal logging unavailable.\<close> when no \<open>onReveal\<close> collaborator is configured; with
  \<open>Reveals disabled in demo mode.\<close> when reveals are not allowed; and with a not-ready
  error (\<open>Model response not available yet.\<close> or \<open>Full response not available.\<close>)
  when the response has no raw text to disclose. The checks are made in this order. As
  \<open>App\<close> mounts the timeline, reveals are not allowed exactly when the demo data set is
  shown or no run is selected; the audit request is issued exactly when reveals are
  allowed and the raw text exists, and then exactly once; and the run of the exchange,
  live or not, plays no part.
\<close>

theorem reveal_rejected_locally:
  "(onReveal = None \<longrightarrow>
      reveal_error (handleRevealResponse onReveal allowReveal g (ui, issued)) (exchangeId g)
        = Some ''Reveal logging unavailable.'')
   \<and> (onReveal \<noteq> None \<and> \<not> allowReveal \<longrightarrow>
      reveal_error (handleRevealResponse onReveal allowReveal g (ui, issued)) (exchangeId g)
        = Some ''Reveals disabled in demo mode.'')
   \<and> (onReveal \<noteq> None \<and> allowReveal \<and> \<not> hasRawResponse g \<longrightarrow>
      reveal_error (handleRevealResponse onReveal allowReveal g (ui, issued)) (exchangeId g)
        = Some (if response g = None then ''Model response not available yet.''
                else ''Full response not available.''))
   \<and> (onReveal = None \<or> \<not> allowReveal \<or> \<not> hasRawResponse g \<longrightarrow>
      snd (handleRevealResponse onReveal allowReveal g (ui, issued)) = issued
    \<and> revealedMap (fst (handleRevealResponse onReveal allowReveal g (ui, issued))) = revealedMap ui
    \<and> pendingReveal (fst (handleRevealResponse onReveal allowReveal g (ui, issued))) = pendingReveal ui
    \<and> isResponseRevealed (fst (handleRevealResponse onReveal allowReveal g (ui, issued))) (exchangeId g)
        = isResponseRevealed ui (exchangeId g))
   \<and> (usingDemoData \<or> selectedRunId = None \<or> selectedRunId = Some [] \<longrightarrow>
      reveal_error (app_reveal selectedRunId usingDemoData backend g (ui, issued)) (exchangeId g)
        = Some ''Reveals disabled in demo mode.''
    \<and> snd (app_reveal selectedRunId usingDemoData backend g (ui, issued)) = issued)
   \<and> snd (app_reveal selectedRunId usingDemoData backend g (ui, issued))
      = (if \<not> usingDemoData \<and> selectedRunId \<noteq> None \<and> selectedRunId \<noteq> Some []
            \<and> hasRawResponse g
         then issued @ [\<lparr>call_run_id = nullish selectedRunId [], call_exchange_id = exchangeId g,
                          call_field = reveal_llm_response, call_reason = None\<rparr>]
         else issued)
   \<and> app_reveal selectedRunId usingDemoData backend (g\<lparr>group_run := r\<rparr>) (ui, issued)
      = app_reveal selectedRunId usingDemoData backend g (ui, issued)"
proof -
  have a: "onReveal = None \<longrightarrow>
      reveal_error (handleRevealResponse onReveal allowReveal g (ui, issued)) (exchangeId g)
        = Some ''Reveal logging unavailable.''"
    by (simp add: reveal_unavailable reveal_error_def set_reveal_error_frame)
  have b: "onReveal \<noteq> None \<and> \<not> allowReveal \<longrightarrow>
      reveal_error (handleRevealResponse onReveal allowReveal g (ui, issued)) (exchangeId g)
        = Some ''Reveals disabled in demo mode.''"
    by (auto simp: reveal_disabled reveal_error_def set_reveal_error_frame)
  have c: "onReveal \<noteq> None \<and> allowReveal \<and> \<not> hasRawResponse g \<longrightarrow>
      reveal_error (handleRevealResponse onReveal allowReveal g (ui, issued)) (exchangeId g)
        = Some (if response g = None then ''Model response not available yet.''
                else ''Full response not available.'')"
    by (auto simp: reveal_not_ready reveal_error_def set_reveal_error_frame)
  have d: "onReveal = None \<or> \<not> allowReveal \<or> \<not> hasRawResponse g \<longrightarrow>
      snd (handleRevealResponse onReveal allowReveal g (ui, issued)) = issued
    \<and> revealedMap (fst (handleRevealResponse onReveal allowReveal g (ui, issued))) = revealedMap ui
    \<and> pendingReveal (fst (handleRevealResponse onReveal allowReveal g (ui, issued))) = pendingReveal ui
    \<and> isResponseRevealed (fst (handleRevealResponse onReveal allowReveal g (ui, issued))) (exchangeId g)
        = isResponseRevealed ui (exchangeId g)"
  proof (cases onReveal)
    case None
    then show ?thesis by (simp add: reveal_unavailable set_reveal_error_frame)
  next
    case (Some f)
    show ?thesis
    proof (cases allowReveal)
      case False
      then show ?thesis using Some by (simp add: reveal_disabled set_reveal_error_frame)
    next
      case True
      then show ?thesis using Some by (simp add: reveal_not_ready set_reveal_error_frame)
    qed
  qed
  have e: "usingDemoData \<or> selectedRunId = None \<or> selectedRunId = Some [] \<longrightarrow>
      reveal_error (app_reveal selectedRunId usingDemoData backend g (ui, issued)) (exchangeId g)
        = Some ''Reveals disabled in demo mode.''
    \<and> snd (app_reveal selectedRunId usingDemoData backend g (ui, issued)) = issued"
  proof
    assume "usingDemoData \<or> selectedRunId = None \<or> selectedRunId = Some []"
    then have "\<not> app_allowReveal selectedRunId usingDemoData"
      by (auto simp: app_allowReveal_iff)
    then show "reveal_error (app_reveal selectedRunId usingDemoData backend g (ui, issued)) (exchangeId g)
        = Some ''Reveals disabled in demo mode.''
      \<and> snd (app_reveal selectedRunId usingDemoData backend g (ui, issued)) = issued"
      by (simp add: app_reveal_def reveal_disabled reveal_error_def set_reveal_error_frame)
  qed
  have f: "snd (app_reveal selectedRunId usingDemoData backend g (ui, issued))
      = (if \<not> usingDemoData \<and> selectedRunId \<noteq> None \<and> selectedRunId \<noteq> Some []
            \<and> hasRawResponse g
         then issued @ [\<lparr>call_run_id = nullish selectedRunId [], call_exchange_id = exchangeId g,
                          call_field = reveal_llm_response, call_reason = None\<rparr>]
         else issued)"
  proof (cases "app_allowReveal selectedRunId usingDemoData")
    case False
    then have "snd (app_reveal selectedRunId usingDemoData backend g (ui, issued)) = issued"
      by (simp add: app_reveal_def reveal_disabled)
    then show ?thesis using False by (auto simp: app_allowReveal_iff)
  next
    case allow: True
    show ?thesis
    proof (cases "hasRawResponse g")
      case False
      then have "snd (app_reveal selectedRunId usingDemoData backend g (ui, issued)) = issued"
        using allow by (simp add: app_reveal_def reveal_not_ready)
      then show ?thesis using False by simp
    next
      case True
      have "truthy_string selectedRunId = Some (nullish selectedRunId [])"
        using allow
        by (auto simp: app_allowReveal_def truthy_string_def nullish_def
            split: option.splits if_splits)
      then have "snd (app_reveal selectedRunId usingDemoData backend g (ui, issued))
          = issued @ [\<lparr>call_run_id = nullish selectedRunId [], call_exchange_id = exchangeId g,
                          call_field = reveal_llm_response, call_reason = None\<rparr>]"
        using allow True
        by (simp add: app_reveal_def reveal_calls handleRevealRequest_issued app_allowReveal_def)
      then show ?thesis using allow True by (simp add: app_allowReveal_iff)
    qed
  qed
  have g: "app_reveal selectedRunId usingDemoData backend (g\<lparr>group_run := r\<rparr>) (ui, issued)
      = app_reveal selectedRunId usingDemoData backend g (ui, issued)"
    by (simp add: app_reveal_def handleRevealResponse_run)
  from a b c d e f g show ?thesis by blast
qed

theorem reveal_rejected_locally_witness:
  "reveal_error (handleRevealResponse None True (example_group (Some ''raw text''))
       (initial_reveal_state, [])) ''ex-1'' = Some ''Reveal logging unavailable.''
   \<and> reveal_error (app_reveal (Some ''run-7'') True recording_backend (example_group (Some ''raw text''))
       (initial_reveal_state, [])) ''ex-1'' = Some ''Reveals disabled in demo mode.''
   \<and> snd (app_reveal (Some ''run-7'') True recording_backend (example_group (Some ''raw text''))
       (initial_reveal_state, [])) = []
   \<and> reveal_error (app_reveal None False recording_backend (example_group (Some ''raw text''))
       (initial_reveal_state, [])) ''ex-1'' = Some ''Reveals disabled in demo mode.''
   \<and> reveal_error (app_reveal (Some ''run-7'') False recording_backend (example_group None)
       (initial_reveal_state, [])) ''ex-1'' = Some ''Full response not available.''
   \<and> snd (app_reveal (Some ''run-7'') False recording_backend (example_group None)
       (initial_reveal_state, [])) = []
   \<and> snd (app_reveal (Some ''run-7'') False recording_backend (example_group (Some ''raw text''))
       (initial_reveal_state, []))
       = [\<lparr>call_run_id = ''run-7'', call_exchange_id = ''ex-1'', call_field = reveal_llm_response,
           call_reason = None\<rparr>]
   \<and> isResponseRevealed (fst (app_reveal (Some ''run-7'') False recording_backend
         (example_group (Some ''raw text'')) (initial_reveal_state, []))) ''ex-1''
   \<and> \<not> isResponseRevealed (fst (app_reveal (Some ''run-7'') False refusing_backend
         (example_group (Some ''raw text'')) (initial_reveal_state, []))) ''ex-1''
   \<and> fst (recordReveal refusing_backend
         \<lparr>call_run_id = ''run-7'', call_exchange_id = ''ex-1'', call_field = reveal_llm_response,
          call_reason = None\<rparr> [])
       = Inl ''Reveal logging failed (503): Service Unavailable''"
  using reveal_rejected_locally [where onReveal = None and allowReveal = True
      and g = "example_group (Some ''raw text'')" and ui = initial_reveal_state and issued = "[]"
      and selectedRunId = "Some ''run-7''" and usingDemoData = True
      and backend = recording_backend and r = recorded_run]
    reveal_rejected_locally [where
      onReveal = "Some (handleRevealRequest (Some ''run-7'') True recording_backend)"
      and allowReveal = False
      and g = "example_group (Some ''raw text'')" and ui = initial_reveal_state and issued = "[]"
      and selectedRunId = "Some ''run-7''" and usingDemoData = False
      and backend = recording_backend and r = recorded_run]
  by (simp add: app_reveal_def app_allowReveal_def handleRevealResponse_def handleRevealRequest_def
      recordReveal_def reveal_error_def set_reveal_error_def isResponseRevealed_def
      example_group_def initial_reveal_state_def truthy_string_def empty_payload_def
      recording_backend_def refusing_backend_def nullish_def number_string_def)


section \<open>Properties of the live-event buffer\<close>

lemma onEvent_duplicate:
  "event_triple e \<in> event_triple ` set prev \<Longrightarrow> onEvent e prev = prev"
  by (auto simp: onEvent_def event_triple_def list_ex_iff)

lemma onEvent_new:
  "event_triple e \<notin> event_triple ` set prev \<Longrightarrow>
   onEvent e prev = drop (length prev + 1 - 500) (prev @ [e])"
proof -
  assume a: "event_triple e \<notin> event_triple ` set prev"
  have "\<not> list_ex (\<lambda>existing. exchange_id existing = exchange_id e
          \<and> event_type existing = event_type e \<and> created_at existing = created_at e) prev"
  proof
    assume "list_ex (\<lambda>existing. exchange_id existing = exchange_id e
          \<and> event_type existing = event_type e \<and> created_at existing = created_at e) prev"
    then obtain x where "x \<in> set prev" "event_triple x = event_triple e"
      by (auto simp: list_ex_iff event_triple_def)
    then show False using a by (metis imageI)
  qed
  then show ?thesis by (simp add: onEvent_def Let_def)
qed

text \<open>
  What the stream handler does on its own: a delivery into a buffer of at most 500
  events with pairwise distinct \<open>(event_type, exchange_id, created_at)\<close> leaves such a
  buffer, and an append to a full buffer discards the oldest event.
\<close>

lemma onEvent_ok: "stream_buffer_ok prev \<Longrightarrow> stream_buffer_ok (onEvent e prev)"
proof (cases "event_triple e \<in> event_triple ` set prev")
  case True
  assume "stream_buffer_ok prev"
  then show ?thesis using True by (simp add: onEvent_duplicate)
next
  case False
  assume ok: "stream_buffer_ok prev"
  have d: "distinct (map event_triple (prev @ [e]))"
    using ok False by (simp add: stream_buffer_ok_def)
  have "distinct (drop (length prev + 1 - 500) (map event_triple (prev @ [e])))"
    using d by (rule distinct_drop)
  then have "distinct (map event_triple (drop (length prev + 1 - 500) (prev @ [e])))"
    by (simp only: drop_map)
  moreover have "length (drop (length prev + 1 - 500) (prev @ [e])) \<le> 500"
    using ok by (simp add: stream_buffer_ok_def)
  ultimately show ?thesis
    using False by (simp add: onEvent_new stream_buffer_ok_def)
qed

lemma stream_deliveries_ok:
  "stream_buffer_ok prev \<Longrightarrow> stream_buffer_ok (stream_deliveries prev es)"
  unfolding stream_deliveries_def
  by (induction es arbitrary: prev) (simp_all add: onEvent_ok)

lemma onEvent_overflow:
  assumes "event_triple e \<notin> event_triple ` set prev" "length prev = 500"
  shows "onEvent e prev = tl prev @ [e]"
proof -
  from assms(2) obtain x xs where "prev = x # xs" by (cases prev) auto
  then show ?thesis using assms by (simp add: onEvent_new)
qed

lemma stream_deliveries_distinct:
  "distinct (map event_triple (buf @ es)) \<Longrightarrow> length (buf @ es) \<le> 500 \<Longrightarrow>
   stream_deliveries buf es = buf @ es"
proof (induction es arbitrary: buf)
  case Nil
  show ?case by (simp add: stream_deliveries_def)
next
  case (Cons e es)
  have new: "event_triple e \<notin> event_triple ` set buf"
    using Cons.prems(1) by auto
  have step: "onEvent e buf = buf @ [e]"
    using new Cons.prems(2) by (simp add: onEvent_new)
  have "stream_deliveries buf (e # es) = stream_deliveries (buf @ [e]) es"
    by (simp add: stream_deliveries_def step)
  also have "\<dots> = (buf @ [e]) @ es"
    using Cons.prems by (intro Cons.IH) simp_all
  finally show ?case by simp
qed

lemma foldl_insert_keys:
  "foldl (\<lambda>seen event. insert (event_key event) seen) S xs = S \<union> event_key ` set xs"
  by (induction xs arbitrary: S) auto

lemma submit_merge_first_by_key:
  "submit_merge prev rs = prev @ first_by_key (event_key ` set prev) rs"
  by (simp add: submit_merge_def foldl_insert_keys foldl_push)

lemma numbered_distinct: "distinct (map event_triple (map numbered_event [0..<n]))"
proof -
  have "inj (\<lambda>k. event_triple (numbered_event k))"
    by (rule injI) (simp add: event_triple_def numbered_event_def response_event_def)
  then have "inj_on (\<lambda>k. event_triple (numbered_event k)) (set [0..<n])"
    by (rule inj_on_subset) simp
  then have "distinct (map (\<lambda>k. event_triple (numbered_event k)) [0..<n])"
    by (simp add: distinct_map)
  then show ?thesis by (simp add: o_def)
qed

lemma full_buffer:
  "stream_deliveries [] (map numbered_event [0..<500]) = map numbered_event [0..<500]"
  using stream_deliveries_distinct [of "[]" "map numbered_event [0..<500]"] numbered_distinct [of 500]
  by simp

lemma console_reply_new:
  "first_by_key (event_key ` set (map numbered_event [0..<n])) console_reply = console_reply"
proof -
  have "\<And>k e. e \<in> set console_reply \<Longrightarrow> event_key e \<noteq> event_key (numbered_event k)"
    by (auto simp: console_reply_def event_key_def numbered_event_def response_event_def
        verdict_event_def)
  then have disj: "event_key ` set console_reply \<inter> event_key ` set (map numbered_event [0..<n]) = {}"
    by auto
  have d: "distinct (map event_key console_reply)"
    by (simp add: console_reply_def event_key_def response_event_def verdict_event_def
        at_ms2_def at_ms3_def)
  from d disj show ?thesis by (rule first_by_key_distinct_id)
qed

text \<open>
  C9. After every delivery of a live-stream event the buffer should hold at most 500
  events. The bound is enforced by \<open>onEvent\<close> only when it appends; the updater of
  \<open>handlePromptSubmit\<close> writes the same buffer without it. Here 500 events are
  delivered one by one into the empty buffer, a console submission for the selected run
  returns two new events, and the stream then delivers the first of them again:
  \<open>onEvent\<close> finds it in the buffer and returns the buffer as it is, with 502 events.
\<close>

theorem console_merge_breaks_stream_cap:
  "length (stream_deliveries [] (map numbered_event [0..<500])) = 500
   \<and> stream_buffer_ok (stream_deliveries [] (map numbered_event [0..<500]))
   \<and> length (onEvent (hd console_reply)
        (submit_merge (stream_deliveries [] (map numbered_event [0..<500])) console_reply)) = 502"
proof -
  let ?full = "stream_deliveries [] (map numbered_event [0..<500])"
  have len: "length ?full = 500" by (simp add: full_buffer)
  have ok: "stream_buffer_ok ?full"
    by (rule stream_deliveries_ok) (simp add: stream_buffer_ok_def)
  have m: "submit_merge ?full console_reply = map numbered_event [0..<500] @ console_reply"
    by (simp only: full_buffer submit_merge_first_by_key console_reply_new)
  have "event_triple (hd console_reply) \<in> event_triple ` set (submit_merge ?full console_reply)"
    by (simp only: m) (simp add: console_reply_def)
  then have "onEvent (hd console_reply) (submit_merge ?full console_reply)
             = submit_merge ?full console_reply"
    by (rule onEvent_duplicate)
  then have "length (onEvent (hd console_reply) (submit_merge ?full console_reply)) = 502"
    by (simp only: m) (simp add: console_reply_def)
  with len ok show ?thesis by simp
qed


section \<open>Properties of the playback controller\<close>

subsection \<open>The state a call finds\<close>

lemma effects_establish:
  "index_in_range len (lengthChangeEffects feedChanged combinedLen len s)
   \<and> idle_when_empty len (lengthChangeEffects feedChanged combinedLen len s)"
  by (auto simp: lengthChangeEffects_def playingEffect_def clampEffect_def feedEffect_def
      index_in_range_def idle_when_empty_def Let_def)

lemma clampEffect_establishes:
  "index_in_range len (clampEffect len s) \<and> idle_when_empty len (clampEffect len s)"
  by (auto simp: clampEffect_def index_in_range_def idle_when_empty_def)

lemma handlers_keep:
  assumes "index_in_range len s" "idle_when_empty len s"
  shows "index_in_range len (handlePlay len s) \<and> idle_when_empty len (handlePlay len s)"
    and "index_in_range len (handlePause s) \<and> idle_when_empty len (handlePause s)"
    and "index_in_range len (handleReset s) \<and> idle_when_empty len (handleReset s)"
  using assms
  by (auto simp: index_in_range_def idle_when_empty_def handlePlay_def handlePause_def
      handleReset_def)

subsection \<open>Clamping under scrub and step calls\<close>

lemma applyCall_in_range:
  "index_in_range len s \<Longrightarrow> index_in_range len (applyCall len s c)"
  by (cases c)
     (auto simp: index_in_range_def handleScrub_def handleStepForward_def handleStepBack_def)

lemma applyCall_idle:
  "idle_when_empty len s \<Longrightarrow> \<not> isPlaying (applyCall len s c)"
  by (cases c)
     (auto simp: idle_when_empty_def handleScrub_def handleStepForward_def handleStepBack_def)

lemma runCalls_in_range:
  "index_in_range len s \<Longrightarrow> index_in_range len (runCalls len cs s)"
  unfolding runCalls_def
  by (induction cs arbitrary: s) (simp_all add: applyCall_in_range)

lemma runCalls_idle:
  "idle_when_empty len s \<Longrightarrow> idle_when_empty len (runCalls len cs s)"
  unfolding runCalls_def
proof (induction cs arbitrary: s)
  case Nil
  then show ?case by simp
next
  case (Cons c cs)
  have "idle_when_empty len (applyCall len s c)"
    using applyCall_idle [OF Cons.prems, of c] by (auto simp: idle_when_empty_def)
  then show ?case using Cons.IH by simp
qed

lemma runCalls_not_playing:
  "idle_when_empty len s \<Longrightarrow> cs \<noteq> [] \<Longrightarrow> \<not> isPlaying (runCalls len cs s)"
proof (induction cs arbitrary: s rule: rev_induct)
  case Nil
  then show ?case by simp
next
  case (snoc c cs)
  have "idle_when_empty len (runCalls len cs s)"
    using snoc.prems(1) by (rule runCalls_idle)
  then have "\<not> isPlaying (applyCall len (runCalls len cs s) c)"
    by (rule applyCall_idle)
  then show ?case by (simp add: runCalls_def)
qed

text \<open>
  C3. A step or a scrub call finds the controller with nothing playing while the
  filtered sequence is empty (\<open>idle_when_empty\<close>: the clamp effect stops playback when
  the sequence becomes empty, \<open>play\<close> returns at once on an empty sequence, and the
  controls are disabled). Starting from any such state with an index in
  \<open>[-1, len-1]\<close>, after any finite run of \<open>scrub(i)\<close>, \<open>stepForward\<close> and
  \<open>stepBack\<close> calls the index is in \<open>[-1, len-1]\<close>, the state is again of this kind,
  and nothing is playing once a call has been made. \<open>stepForward\<close> and \<open>stepBack\<close>
  set the index to \<open>clamp(index \<plusminus> 1, -1, len-1)\<close> and cancel playing, and \<open>scrub(i)\<close>
  sets it to \<open>clamp(i, 0, len-1)\<close> and cancels playing.
\<close>

theorem playback_calls_clamped:
  assumes "index_in_range len s" and "idle_when_empty len s"
  shows "index_in_range len (runCalls len cs s)
    \<and> idle_when_empty len (runCalls len cs s)
    \<and> (cs \<noteq> [] \<longrightarrow> \<not> isPlaying (runCalls len cs s))
    \<and> playbackIndex (handleStepForward len s) = spec_clamp (playbackIndex s + 1) (- 1) (int len - 1)
    \<and> \<not> isPlaying (handleStepForward len s)
    \<and> playbackIndex (handleStepBack len s) = spec_clamp (playbackIndex s - 1) (- 1) (int len - 1)
    \<and> \<not> isPlaying (handleStepBack len s)
    \<and> playbackIndex (handleScrub len i s) = spec_clamp i 0 (int len - 1)
    \<and> \<not> isPlaying (handleScrub len i s)"
proof -
  have run: "index_in_range len (runCalls len cs s)"
    using assms(1) by (rule runCalls_in_range)
  have idle: "idle_when_empty len (runCalls len cs s)"
    using assms(2) by (rule runCalls_idle)
  have stop: "cs \<noteq> [] \<longrightarrow> \<not> isPlaying (runCalls len cs s)"
    using assms(2) by (simp add: runCalls_not_playing)
  have fwd: "playbackIndex (handleStepForward len s) = spec_clamp (playbackIndex s + 1) (- 1) (int len - 1)
    \<and> \<not> isPlaying (handleStepForward len s)"
    using assms by (auto simp: index_in_range_def idle_when_empty_def spec_clamp_def handleStepForward_def)
  have bwd: "playbackIndex (handleStepBack len s) = spec_clamp (playbackIndex s - 1) (- 1) (int len - 1)
    \<and> \<not> isPlaying (handleStepBack len s)"
    using assms by (auto simp: index_in_range_def idle_when_empty_def spec_clamp_def handleStepBack_def)
  have scrub: "playbackIndex (handleScrub len i s) = spec_clamp i 0 (int len - 1)
    \<and> \<not> isPlaying (handleScrub len i s)"
    using assms by (auto simp: index_in_range_def idle_when_empty_def spec_clamp_def handleScrub_def)
  from run idle stop fwd bwd scrub show ?thesis by blast
qed

theorem playback_calls_clamped_witness:
  "index_in_range 3 (playing_at 1) \<and> idle_when_empty 3 (playing_at 1)
   \<and> playbackIndex (runCalls 3 [StepForward, Scrub 7, StepBack, StepBack] (playing_at 1)) = 0
   \<and> \<not> isPlaying (runCalls 3 [StepForward, Scrub 7, StepBack, StepBack] (playing_at 1))
   \<and> playbackIndex (handleStepForward 3 (playing_at 1)) = 2
   \<and> \<not> isPlaying (handleStepForward 3 (playing_at 1))
   \<and> playbackIndex (handleScrub 3 7 (playing_at 1)) = 2
   \<and> \<not> isPlaying (handleScrub 3 7 (playing_at 1))
   \<and> index_in_range 0 (paused_at (- 1)) \<and> idle_when_empty 0 (paused_at (- 1))
   \<and> playbackIndex (handleScrub 0 7 (paused_at (- 1))) = - 1
   \<and> playbackIndex (handleStepForward 0 (paused_at (- 1))) = - 1"
proof -
  have h: "index_in_range 3 (playing_at 1)" "idle_when_empty 3 (playing_at 1)"
    by (simp_all add: index_in_range_def idle_when_empty_def playing_at_def)
  have e: "index_in_range 0 (paused_at (- 1))" "idle_when_empty 0 (paused_at (- 1))"
    by (simp_all add: index_in_range_def idle_when_empty_def paused_at_def)
  have run: "playbackIndex (runCalls 3 [StepForward, Scrub 7, StepBack, StepBack] (playing_at 1)) = 0"
    by (simp add: runCalls_def playing_at_def handleStepForward_def handleStepBack_def
        handleScrub_def)
  from playback_calls_clamped [OF h, of "[StepForward, Scrub 7, StepBack, StepBack]" 7]
    playback_calls_clamped [OF e, of "[]" 7] h e run
  show ?thesis
    by (simp add: spec_clamp_def playing_at_def paused_at_def)
qed

subsection \<open>Re-clamping when the filtered sequence shrinks\<close>

text \<open>
  C4, as stated, fails in two ways. The clamp effect has the branch
  \<open>if (prev < 0) return filteredEvents.length - 1\<close>: when a filter shrinks the sequence
  from five events to three (the merged feed keeps its five) the index \<open>-1\<close>, which
  lies in the new range, does not stay \<open>-1\<close> but becomes \<open>2\<close>. And when the sequence
  shrinks because the merged feed does (from five events to three, no filter), the feed
  effect first moves the index to the last merged event: the index \<open>0\<close>, which lies in
  the new range, becomes \<open>2\<close>.
\<close>

theorem clamp_effect_moves_unset_index:
  "index_in_range 3 (paused_at (- 1))
   \<and> playbackIndex (clampEffect 3 (paused_at (- 1))) = 2
   \<and> playbackIndex (lengthChangeEffects False 5 3 (paused_at (- 1))) = 2
   \<and> index_in_range 3 (paused_at 0)
   \<and> playbackIndex (lengthChangeEffects True 3 3 (paused_at 0)) = 2"
  by (simp add: index_in_range_def lengthChangeEffects_def playingEffect_def clampEffect_def
      feedEffect_def paused_at_def)

text \<open>
  C4 (amended). Let the filtered sequence shrink from \<open>oldLen\<close> to \<open>len\<close> events, out
  of \<open>combinedLen\<close> merged events. When it becomes empty the controller forces
  \<open>index = -1\<close> and \<open>playing = false\<close>. When it stays non-empty the index comes to lie in
  \<open>[0, len-1]\<close>: if the filter alone has changed (the run and the length of the merged
  feed are the same), an index of \<open>0\<close> or more is clamped, \<open>clamp(index, -1, len-1)\<close>,
  and not otherwise changed, while an index of \<open>-1\<close> becomes \<open>len-1\<close>; if the run or
  the length of the merged feed has changed as well, the index becomes \<open>len-1\<close>.
\<close>

theorem playback_effects_on_shrink:
  assumes "len < oldLen" and "len \<le> combinedLen"
  shows "(len = 0 \<longrightarrow>
            playbackIndex (lengthChangeEffects feedChanged combinedLen len s) = - 1
          \<and> \<not> isPlaying (lengthChangeEffects feedChanged combinedLen len s))
    \<and> (0 < len \<longrightarrow>
            0 \<le> playbackIndex (lengthChangeEffects feedChanged combinedLen len s)
          \<and> playbackIndex (lengthChangeEffects feedChanged combinedLen len s) \<le> int len - 1
          \<and> (\<not> feedChanged \<and> 0 \<le> playbackIndex s \<longrightarrow>
                playbackIndex (lengthChangeEffects feedChanged combinedLen len s)
                  = spec_clamp (playbackIndex s) (- 1) (int len - 1))
          \<and> (\<not> feedChanged \<and> 0 \<le> playbackIndex s \<and> playbackIndex s \<le> int len - 1 \<longrightarrow>
                playbackIndex (lengthChangeEffects feedChanged combinedLen len s) = playbackIndex s)
          \<and> (\<not> feedChanged \<and> playbackIndex s < 0 \<longrightarrow>
                playbackIndex (lengthChangeEffects feedChanged combinedLen len s) = int len - 1)
          \<and> (feedChanged \<longrightarrow>
                playbackIndex (lengthChangeEffects feedChanged combinedLen len s) = int len - 1))"
  using assms
  by (auto simp: lengthChangeEffects_def playingEffect_def clampEffect_def feedEffect_def
      spec_clamp_def Let_def)

theorem playback_effects_on_shrink_witness:
  "(0::nat) < 5 \<and> (0::nat) \<le> 5
   \<and> playbackIndex (lengthChangeEffects False 5 0 (playing_at 4)) = - 1
   \<and> \<not> isPlaying (lengthChangeEffects False 5 0 (playing_at 4))
   \<and> (3::nat) < 5 \<and> (3::nat) \<le> 5
   \<and> playbackIndex (lengthChangeEffects False 5 3 (playing_at 4)) = 2
   \<and> playbackIndex (lengthChangeEffects False 5 3 (playing_at 1)) = 1
   \<and> playbackIndex (lengthChangeEffects False 5 3 (paused_at (- 1))) = 2
   \<and> (3::nat) < 5 \<and> (3::nat) \<le> 3
   \<and> playbackIndex (lengthChangeEffects True 3 3 (playing_at 1)) = 2"
  using playback_effects_on_shrink [of 0 5 5 False "playing_at 4"]
    playback_effects_on_shrink [of 3 5 5 False "playing_at 4"]
    playback_effects_on_shrink [of 3 5 5 False "playing_at 1"]
    playback_effects_on_shrink [of 3 5 5 False "paused_at (- 1)"]
    playback_effects_on_shrink [of 3 5 3 True "playing_at 1"]
  by (simp add: spec_clamp_def playing_at_def paused_at_def)

end
